theory Spec2Isabelle
  imports Main "HOL-Library.Word"
begin

section \<open>devwatch: the event-processing pipeline of watchEvents.go\<close>

text \<open>
  The model follows \<^verbatim>\<open>src/watchEvents.go\<close>. One iteration of the \<^verbatim>\<open>for/select\<close> loop is a
  function from the loop's state to its next state. Everything the loop reads from outside
  (the file system, the clock, the handlers, the ownership oracle, the notification source)
  is reached through the fields of the \<^verbatim>\<open>DevWatch\<close> record, over an abstract world \<open>'w\<close>.
  Every externally visible action is appended to a trace, so that the order of actions and
  the absence of an action can be stated.

  Times are nanoseconds (\<^verbatim>\<open>time.Time\<close> and \<^verbatim>\<open>time.Duration\<close> as \<open>int\<close>); a Go \<^verbatim>\<open>error\<close> is
  an \<open>err option\<close> with \<open>None\<close> for \<^verbatim>\<open>nil\<close>. Calls of \<^verbatim>\<open>h.Logger\<close> have no effect on the state
  and are left out.
\<close>

subsection \<open>Basic types\<close>

type_synonym byte = "8 word"
type_synonym err = string

definition Millisecond :: int where
  "Millisecond = 1000000"

text \<open>\<^verbatim>\<open>const debounceWindow = 50 * time.Millisecond\<close> (watchEvents, line 23).\<close>

definition debounceWindow :: int where
  "debounceWindow = 50 * Millisecond"

text \<open>\<^verbatim>\<open>const wait = 50 * time.Millisecond\<close> (scheduleReload, line 227).\<close>

definition wait :: int where
  "wait = 50 * Millisecond"

text \<open>\<^verbatim>\<open>type fileEventKey struct { lastTime time.Time; lastHash [32]byte }\<close>\<close>

record fileEventKey =
  lastTime :: int
  lastHash :: "byte list"

record FileInfo =
  IsDir :: bool

text \<open>An \<^verbatim>\<open>fsnotify.Event\<close>: the path, and the rendering \<^verbatim>\<open>event.Op.String()\<close> of its kind.\<close>

record Event =
  Name :: string
  Op :: string

text \<open>
  A \<^verbatim>\<open>*time.Timer\<close> with its channel \<^verbatim>\<open>C\<close>, under the contract of Go 1.23 and later, which
  the module's \<^verbatim>\<open>go 1.24.4\<close> selects: \<open>deadline\<close> is the expiry time of a running timer
  (\<open>None\<close> when stopped or expired), \<open>chanC\<close> says that the timer has expired and its
  value has not been received from \<^verbatim>\<open>C\<close>. \<^verbatim>\<open>Stop\<close> and \<^verbatim>\<open>Reset\<close> discard a value that has not
  been received, so that no receive after them sees a value of the previous setting, and
  \<^verbatim>\<open>Stop\<close> returns true when the timer was running or such a value was pending.
\<close>

record Timer =
  deadline :: "int option"
  chanC :: bool

text \<open>The externally visible actions of the loop, in the order they happen.\<close>

datatype effect =
    EStat string
  | EContain string
  | EHash string
  | EOracle nat bool "err option"
  | EHandler nat "err option"
  | EFolderEvent string "err option"
  | EWatcherAdd string "err option"
  | EScheduleReload
  | ERecord string fileEventKey
  | EReload
  | EWatcherClose

text \<open>The \<^verbatim>\<open>FilesEventHandlers\<close> interface (the methods the loop calls).\<close>

record 'w FilesEventHandler =
  MainInputFileRelativePath :: string
  NewFileEvent :: "string \<Rightarrow> string \<Rightarrow> string \<Rightarrow> string \<Rightarrow> 'w \<Rightarrow> err option \<times> 'w"
  SupportedExtensions :: "string list"

text \<open>
  What \<^verbatim>\<open>filepath.Walk\<close> finds under a path: an entry whose \<^verbatim>\<open>Lstat\<close> fails, an entry that
  is not a directory, a directory whose names cannot be read, or a directory with its
  entries in the order \<^verbatim>\<open>Walk\<close> visits them.
\<close>

datatype fstree =
    LstatErr
  | NotDir
  | UnreadableDir
  | Dir "(string \<times> fstree) list"

text \<open>
  The \<^verbatim>\<open>DevWatch\<close> value \<^verbatim>\<open>h\<close>: its configuration, and the operations the loop calls that
  are not defined in \<^verbatim>\<open>watchEvents.go\<close>. \<open>Contain\<close> and \<open>GetFileName\<close> are functions
  of the repository whose source is not part of the verified files and are taken as
  parameters; \<open>ThisFileIsMine\<close> is \<^verbatim>\<open>h.depFinder.ThisFileIsMine\<close>; \<open>watcherAdd\<close> is
  \<^verbatim>\<open>h.watcher.Add\<close>; \<open>osStat\<close> is \<^verbatim>\<open>os.Stat\<close>; \<open>readFile\<close> is \<^verbatim>\<open>os.Open\<close> followed by
  \<^verbatim>\<open>io.Copy\<close>, failing when either fails; \<open>sha256Sum\<close> is the digest of \<^verbatim>\<open>crypto/sha256\<close>;
  \<open>timeNow\<close> is \<^verbatim>\<open>time.Now\<close>; \<open>walkTree\<close> is the directory tree \<^verbatim>\<open>filepath.Walk\<close> traverses.
\<close>

record 'w DevWatch =
  FilesEventHandlers :: "'w FilesEventHandler list"
  FolderEvents :: "(string \<Rightarrow> string \<Rightarrow> string \<Rightarrow> 'w \<Rightarrow> err option \<times> 'w) option"
  BrowserReload :: "('w \<Rightarrow> err option \<times> 'w) option"
  Contain :: "string \<Rightarrow> bool"
  GetFileName :: "string \<Rightarrow> string \<times> err option"
  ThisFileIsMine :: "string \<Rightarrow> string \<Rightarrow> string \<Rightarrow> 'w \<Rightarrow> (bool \<times> err option) \<times> 'w"
  watcherAdd :: "string \<Rightarrow> 'w \<Rightarrow> err option \<times> 'w"
  osStat :: "'w \<Rightarrow> string \<Rightarrow> err + FileInfo"
  readFile :: "'w \<Rightarrow> string \<Rightarrow> err + byte list"
  sha256Sum :: "byte list \<Rightarrow> byte list"
  timeNow :: "'w \<Rightarrow> int"
  walkTree :: "'w \<Rightarrow> string \<Rightarrow> fstree"

text \<open>
  The state of the loop: the world, the local map \<^verbatim>\<open>lastEventInfo\<close>, the field
  \<^verbatim>\<open>h.reloadTimer\<close> (\<open>None\<close> is \<^verbatim>\<open>nil\<close>), and the trace of actions so far.
\<close>

record 'w state =
  world :: 'w
  lastEventInfo :: "string \<rightharpoonup> fileEventKey"
  reloadTimer :: "Timer option"
  trace :: "effect list"

definition emit :: "effect \<Rightarrow> 'w state \<Rightarrow> 'w state" where
  "emit e st = st\<lparr>trace := trace st @ [e]\<rparr>"

subsection \<open>Library functions the loop calls\<close>

text \<open>\<^verbatim>\<open>strings.ToLower\<close> on the ASCII strings \<^verbatim>\<open>Op.String()\<close> produces.\<close>

definition toLowerChar :: "char \<Rightarrow> char" where
  "toLowerChar c =
     (let n = (of_char c :: nat) in if 65 \<le> n \<and> n \<le> 90 then char_of (n + 32) else c)"

definition ToLower :: "string \<Rightarrow> string" where
  "ToLower s = map toLowerChar s"

text \<open>
  \<^verbatim>\<open>filepath.Ext\<close>: the suffix beginning at the final dot in the final element of the path,
  empty if there is no dot. The scan runs from the end of the path and stops at a path
  separator (\<^verbatim>\<open>/\<close>); the first argument is the reversed rest of the path, the second the
  suffix already passed.
\<close>

fun ExtScan :: "string \<Rightarrow> string \<Rightarrow> string" where
  "ExtScan [] suffix = []"
| "ExtScan (c # cs) suffix =
     (if c = CHR ''/'' then []
      else if c = CHR ''.'' then c # suffix
      else ExtScan cs (c # suffix))"

definition Ext :: "string \<Rightarrow> string" where
  "Ext path = ExtScan (rev path) []"

text \<open>\<^verbatim>\<open>copy(hash[:], hasher.Sum(nil))\<close> into a zeroed \<^verbatim>\<open>[32]byte\<close>.\<close>

definition zeroHash :: "byte list" where
  "zeroHash = replicate 32 0"

definition copy32 :: "byte list \<Rightarrow> byte list" where
  "copy32 bs = take 32 bs @ replicate (32 - length bs) 0"

text \<open>
  The operations of \<^verbatim>\<open>time.Timer\<close>. \<open>Stop\<close> stops the timer and discards a pending value;
  it returns true when it stopped the timer, that is when the timer was running or had
  expired with its value unreceived, and false when the timer had been stopped or its
  value received. \<open>Reset\<close> starts the timer again and discards a pending value.
  \<open>tryRecv\<close> is the non-blocking receive \<^verbatim>\<open>select { case <-t.C: default: }\<close>, returning
  whether a value was received; \<open>expire\<close> is the runtime's part: once the deadline has
  passed the timer is no longer running and its value waits for a receiver.
\<close>

definition NewTimer :: "int \<Rightarrow> int \<Rightarrow> Timer" where
  "NewTimer now d = \<lparr>deadline = Some (now + d), chanC = False\<rparr>"

definition Stop :: "Timer \<Rightarrow> bool \<times> Timer" where
  "Stop t = (deadline t \<noteq> None \<or> chanC t, t\<lparr>deadline := None, chanC := False\<rparr>)"

definition Reset :: "int \<Rightarrow> int \<Rightarrow> Timer \<Rightarrow> Timer" where
  "Reset now d t = t\<lparr>deadline := Some (now + d), chanC := False\<rparr>"

definition tryRecv :: "Timer \<Rightarrow> bool \<times> Timer" where
  "tryRecv t = (chanC t, t\<lparr>chanC := False\<rparr>)"


subsection \<open>calculateFileHash (lines 271-290)\<close>

definition calculateFileHash :: "'w DevWatch \<Rightarrow> 'w \<Rightarrow> string \<Rightarrow> byte list" where
  "calculateFileHash h w filePath =
     (case readFile h w filePath of
        Inl e \<Rightarrow> zeroHash
      | Inr bytes \<Rightarrow> copy32 (sha256Sum h bytes))"

subsection \<open>The reload timer (lines 213-269)\<close>

text \<open>\<^verbatim>\<open>triggerBrowserReload\<close>: calls \<^verbatim>\<open>h.BrowserReload\<close> when it is set; its error is dropped.\<close>

definition triggerBrowserReload :: "'w DevWatch \<Rightarrow> 'w state \<Rightarrow> 'w state" where
  "triggerBrowserReload h st =
     (case BrowserReload h of
        None \<Rightarrow> st
      | Some reload \<Rightarrow> emit EReload (st\<lparr>world := snd (reload (world st))\<rparr>))"

text \<open>
  \<^verbatim>\<open>scheduleReload\<close> on the field \<^verbatim>\<open>h.reloadTimer\<close>, called at time \<open>now\<close>: a \<^verbatim>\<open>nil\<close> timer is
  created running; otherwise the timer is stopped, \<^verbatim>\<open>C\<close> is drained when \<^verbatim>\<open>Stop\<close> returned
  false, and the timer is reset.
\<close>

definition scheduleReload :: "int \<Rightarrow> Timer option \<Rightarrow> Timer option" where
  "scheduleReload now rt =
     (case rt of
        None \<Rightarrow> Some (NewTimer now wait)
      | Some t \<Rightarrow>
          (let (wasRunning, t1) = Stop t;
               t2 = (if \<not> wasRunning then snd (tryRecv t1) else t1)
           in Some (Reset now wait t2)))"

text \<open>
  \<^verbatim>\<open>stopReload\<close>: with a timer present, \<^verbatim>\<open>Stop\<close> it; when \<^verbatim>\<open>Stop\<close> returned false, a value
  received from \<^verbatim>\<open>C\<close> triggers the reload, and an empty \<^verbatim>\<open>C\<close> does nothing.
\<close>

definition stopReload :: "'w DevWatch \<Rightarrow> 'w state \<Rightarrow> 'w state" where
  "stopReload h st =
     (case reloadTimer st of
        None \<Rightarrow> st
      | Some t \<Rightarrow>
          (let (wasRunning, t1) = Stop t in
           if \<not> wasRunning then
             (let (received, t2) = tryRecv t1 in
              if received then triggerBrowserReload h (st\<lparr>reloadTimer := Some t2\<rparr>)
              else st\<lparr>reloadTimer := Some t2\<rparr>)
           else st\<lparr>reloadTimer := Some t1\<rparr>))"

text \<open>The \<^verbatim>\<open>case <-h.ExitChan\<close> branch of the loop (lines 123-126).\<close>

definition exitSignal :: "'w DevWatch \<Rightarrow> 'w state \<Rightarrow> 'w state" where
  "exitSignal h st = stopReload h (emit EWatcherClose st)"

subsection \<open>The reload scheduler and its consumer (lines 25-38, 223-245)\<close>










subsection \<open>handleFileEvent (lines 165-211)\<close>

text \<open>
  Lines 190-202, the body of \<^verbatim>\<open>if isMine { ... }\<close> for the handler at index \<open>i\<close>: the
  handler is called; on \<^verbatim>\<open>nil\<close> the flag \<^verbatim>\<open>processedSuccessfully\<close> is set, and
  \<^verbatim>\<open>atLeastOneGoHandlerSucceeded\<close> too for a \<^verbatim>\<open>.go\<close> event. The accumulator is
  \<open>(processedSuccessfully, atLeastOneGoHandlerSucceeded, state)\<close>.
\<close>

definition invokeIfMine ::
  "bool \<Rightarrow> nat \<Rightarrow> 'w FilesEventHandler \<Rightarrow> string \<Rightarrow> string \<Rightarrow> string \<Rightarrow> string \<Rightarrow>
   bool \<times> bool \<times> 'w state \<Rightarrow> bool \<times> bool \<times> 'w state" where
  "invokeIfMine isMine i handler fileName extension eventName eventType acc =
     (case acc of (processedSuccessfully, atLeastOneGoHandlerSucceeded, st) \<Rightarrow>
        if isMine then
          (let (err, w') = NewFileEvent handler fileName extension eventName eventType (world st);
               st' = emit (EHandler i err) (st\<lparr>world := w'\<rparr>)
           in if err \<noteq> None then (processedSuccessfully, atLeastOneGoHandlerSucceeded, st')
              else (True, (if extension = ''.go'' then True else atLeastOneGoHandlerSucceeded), st'))
        else acc)"

text \<open>
  The body of the loop \<^verbatim>\<open>for _, handler := range h.FilesEventHandlers\<close> (lines 174-202)
  for the handler at index \<open>i\<close>; a \<^verbatim>\<open>continue\<close> ends the body with the accumulator reached.
  The index is used only to name the handler in the trace.
\<close>

definition handlerStep ::
  "'w DevWatch \<Rightarrow> string \<Rightarrow> string \<Rightarrow> string \<Rightarrow> string \<Rightarrow> bool \<Rightarrow> nat \<Rightarrow>
   'w FilesEventHandler \<Rightarrow> bool \<times> bool \<times> 'w state \<Rightarrow> bool \<times> bool \<times> 'w state" where
  "handlerStep h fileName extension eventName eventType isDeleteEvent i handler acc =
     (if extension \<notin> set (SupportedExtensions handler) then acc
      else if \<not> isDeleteEvent \<and> extension = ''.go'' then
        (case acc of (processedSuccessfully, atLeastOneGoHandlerSucceeded, st) \<Rightarrow>
           (let ((isMine, herr), w') =
                  ThisFileIsMine h (MainInputFileRelativePath handler) eventName eventType (world st);
                st' = emit (EOracle i isMine herr) (st\<lparr>world := w'\<rparr>)
            in if herr \<noteq> None then (processedSuccessfully, atLeastOneGoHandlerSucceeded, st')
               else invokeIfMine isMine i handler fileName extension eventName eventType
                      (processedSuccessfully, atLeastOneGoHandlerSucceeded, st')))
      else invokeIfMine True i handler fileName extension eventName eventType acc)"

fun handlersLoop ::
  "'w DevWatch \<Rightarrow> string \<Rightarrow> string \<Rightarrow> string \<Rightarrow> string \<Rightarrow> bool \<Rightarrow> nat \<Rightarrow>
   'w FilesEventHandler list \<Rightarrow> bool \<times> bool \<times> 'w state \<Rightarrow> bool \<times> bool \<times> 'w state" where
  "handlersLoop h fileName extension eventName eventType isDeleteEvent i [] acc = acc"
| "handlersLoop h fileName extension eventName eventType isDeleteEvent i (handler # rest) acc =
     handlersLoop h fileName extension eventName eventType isDeleteEvent (Suc i) rest
       (handlerStep h fileName extension eventName eventType isDeleteEvent i handler acc)"

definition handleFileEvent ::
  "'w DevWatch \<Rightarrow> string \<Rightarrow> string \<Rightarrow> string \<Rightarrow> bool \<Rightarrow> 'w state \<Rightarrow> 'w state" where
  "handleFileEvent h fileName eventName eventType isDeleteEvent st =
     (let extension = Ext eventName;
          isGoFileEvent = (extension = ''.go'');
          (processedSuccessfully, atLeastOneGoHandlerSucceeded, st') =
             handlersLoop h fileName extension eventName eventType isDeleteEvent 0
               (FilesEventHandlers h) (False, False, st)
      in if (isGoFileEvent \<and> atLeastOneGoHandlerSucceeded)
            \<or> (\<not> isGoFileEvent \<and> processedSuccessfully)
         then emit EScheduleReload
                (st'\<lparr>reloadTimer := scheduleReload (timeNow h (world st')) (reloadTimer st')\<rparr>)
         else st')"

subsection \<open>handleDirectoryEvent (lines 131-163)\<close>

text \<open>
  Modelled from the spec: \<^verbatim>\<open>addDirectoryToWatcher\<close>, whose source is not among the verified
  files. Section 4.2 gives it the contract \<^verbatim>\<open>register(path) -> error\<close> with a registration
  set scoped to one traversal that prevents registering the same path twice during that
  walk: a path already in the set is not registered again; otherwise the path is added to
  the notification source, and on success it enters the set.
\<close>

definition addDirectoryToWatcher ::
  "'w DevWatch \<Rightarrow> string \<Rightarrow> string list \<Rightarrow> 'w state \<Rightarrow> err option \<times> string list \<times> 'w state" where
  "addDirectoryToWatcher h path reg st =
     (if path \<in> set reg then (None, reg, st)
      else
        (let (err, w') = watcherAdd h path (world st);
             st' = emit (EWatcherAdd path err) (st\<lparr>world := w'\<rparr>)
         in case err of
              None \<Rightarrow> (None, path # reg, st')
            | Some e \<Rightarrow> (Some e, reg, st')))"

text \<open>
  \<^verbatim>\<open>filepath.Walk\<close> with a callback that always returns \<^verbatim>\<open>nil\<close>, as the one of
  \<^verbatim>\<open>handleDirectoryEvent\<close> does: the list of calls \<open>(path, info, err)\<close> of the callback, in
  order. A directory is reported before its entries; an unreadable directory and an entry
  whose \<^verbatim>\<open>Lstat\<close> fails are reported with the error and not entered.
\<close>

type_synonym visit = "string \<times> FileInfo option \<times> err option"

fun walk :: "string \<Rightarrow> fstree \<Rightarrow> visit list" where
  "walk path LstatErr = [(path, None, Some ''lstat'')]"
| "walk path NotDir = [(path, Some \<lparr>IsDir = False\<rparr>, None)]"
| "walk path UnreadableDir = [(path, Some \<lparr>IsDir = True\<rparr>, Some ''readdir'')]"
| "walk path (Dir entries) =
     (path, Some \<lparr>IsDir = True\<rparr>, None)
       # concat (map (\<lambda>(name, t). walk (path @ ''/'' @ name) t) entries)"

text \<open>The callback of lines 149-157, with the registration set \<open>reg\<close> of the walk.\<close>

definition walkFn ::
  "'w DevWatch \<Rightarrow> string \<Rightarrow> visit \<Rightarrow> string list \<times> 'w state \<Rightarrow> string list \<times> 'w state" where
  "walkFn h eventName v acc =
     (case v of (path, info, err) \<Rightarrow>
        (case acc of (reg, st) \<Rightarrow>
           if err \<noteq> None then acc
           else
             (case info of
                None \<Rightarrow> acc
              | Some fi \<Rightarrow>
                  if IsDir fi \<and> path \<noteq> eventName then
                    (let st1 = emit (EContain path) st in
                     if \<not> Contain h path then
                       (case addDirectoryToWatcher h path reg st1 of
                          (e, reg', st2) \<Rightarrow> (reg', st2))
                     else (reg, st1))
                  else acc)))"

fun walkAll ::
  "'w DevWatch \<Rightarrow> string \<Rightarrow> visit list \<Rightarrow> string list \<times> 'w state \<Rightarrow> string list \<times> 'w state" where
  "walkAll h eventName [] acc = acc"
| "walkAll h eventName (v # vs) acc = walkAll h eventName vs (walkFn h eventName v acc)"

definition handleDirectoryEvent ::
  "'w DevWatch \<Rightarrow> string \<Rightarrow> string \<Rightarrow> string \<Rightarrow> 'w state \<Rightarrow> 'w state" where
  "handleDirectoryEvent h fileName eventName eventType st =
     (let st1 =
            (case FolderEvents h of
               None \<Rightarrow> st
             | Some newFolderEvent \<Rightarrow>
                 (let (err, w') = newFolderEvent fileName eventName eventType (world st)
                  in emit (EFolderEvent eventName err) (st\<lparr>world := w'\<rparr>)))
      in if eventType = ''create'' then
           (case addDirectoryToWatcher h eventName [] st1 of
              (err, reg, st2) \<Rightarrow>
                if err = None then
                  snd (walkAll h eventName (walk eventName (walkTree h (world st2) eventName))
                         (reg, st2))
                else st2)
         else st1)"

text \<open>The paths a trace has registered with the notification source, in order.\<close>

fun registered :: "effect list \<Rightarrow> string list" where
  "registered [] = []"
| "registered (EWatcherAdd p None # es) = p # registered es"
| "registered (e # es) = registered es"

subsection \<open>One event of the loop of watchEvents (lines 43-115)\<close>

text \<open>
  Lines 77-96, the decision \<^verbatim>\<open>shouldProcess\<close>, taken at time \<open>now\<close> from the record of the
  path as the map holds it. The result carries the state, whose trace has an \<open>EHash\<close>
  entry exactly when the fingerprint was computed for the decision.
\<close>

definition shouldProcess ::
  "'w DevWatch \<Rightarrow> string \<Rightarrow> int \<Rightarrow> 'w state \<Rightarrow> bool \<times> 'w state" where
  "shouldProcess h name now st =
     (case lastEventInfo st name of
        None \<Rightarrow> (True, st)
      | Some lastInfo \<Rightarrow>
          (let timeSinceLastEvent = now - lastTime lastInfo in
           if timeSinceLastEvent \<le> debounceWindow then
             (let currentHash = calculateFileHash h (world st) name;
                  st' = emit (EHash name) st
              in if currentHash = lastHash lastInfo then (False, st') else (True, st'))
           else (True, st)))"

text \<open>Lines 112-115: the record of the path is overwritten, with a fresh fingerprint.\<close>

definition recordEvent :: "'w DevWatch \<Rightarrow> string \<Rightarrow> int \<Rightarrow> 'w state \<Rightarrow> 'w state" where
  "recordEvent h name now st =
     (let key = \<lparr>lastTime = now, lastHash = calculateFileHash h (world st) name\<rparr>;
          st' = emit (EHash name) st
      in emit (ERecord name key) (st'\<lparr>lastEventInfo := (lastEventInfo st')(name \<mapsto> key)\<rparr>))"

text \<open>
  Lines 75-115, the path of a file event after the checks: the decision, then on
  ``process'' the dispatch and then the record.
\<close>

definition fileEvent ::
  "'w DevWatch \<Rightarrow> string \<Rightarrow> string \<Rightarrow> string \<Rightarrow> bool \<Rightarrow> 'w state \<Rightarrow> 'w state" where
  "fileEvent h fileName name eventType isDeleteEvent st =
     (let now = timeNow h (world st);
          (process, st1) = shouldProcess h name now st
      in if \<not> process then st1
         else recordEvent h name now
                (handleFileEvent h fileName name eventType isDeleteEvent st1))"

text \<open>
  The \<^verbatim>\<open>case event, ok := <-h.watcher.Events\<close> branch for a delivered event (\<^verbatim>\<open>ok\<close> true):
  every \<^verbatim>\<open>continue\<close> returns the state reached so far.
\<close>

definition watchEvent :: "'w DevWatch \<Rightarrow> Event \<Rightarrow> 'w state \<Rightarrow> 'w state" where
  "watchEvent h event st =
     (let eventType = ToLower (Op event);
          isDeleteEvent = (eventType = ''remove'' \<or> eventType = ''delete'')
      in if \<not> isDeleteEvent then
           (let st1 = emit (EStat (Name event)) st in
            case osStat h (world st) (Name event) of
              Inl statErr \<Rightarrow> st1
            | Inr info \<Rightarrow>
                (let st2 = emit (EContain (Name event)) st1 in
                 if Contain h (Name event) then st2
                 else
                   (case GetFileName h (Name event) of
                      (fileName, Some e) \<Rightarrow> st2
                    | (fileName, None) \<Rightarrow>
                        if IsDir info then handleDirectoryEvent h fileName (Name event) eventType st2
                        else fileEvent h fileName (Name event) eventType isDeleteEvent st2)))
         else
           (case GetFileName h (Name event) of
              (fileName, Some e) \<Rightarrow> st
            | (fileName, None) \<Rightarrow> fileEvent h fileName (Name event) eventType isDeleteEvent st))"

subsection \<open>The exclusion predicate\<close>




subsection \<open>A concrete project, for evaluating the model\<close>

text \<open>
  A small world: a clock, the readable files with their bytes, the directories, the number
  of browser reloads so far and the directories registered with the notification source.
\<close>

record demoWorld =
  clock :: int
  files :: "(string \<times> byte list) list"
  dirs :: "string list"
  reloadCount :: nat
  watched :: "string list"

definition demoStat :: "demoWorld \<Rightarrow> string \<Rightarrow> err + FileInfo" where
  "demoStat w p =
     (if p \<in> set (dirs w) then Inr \<lparr>IsDir = True\<rparr>
      else if map_of (files w) p \<noteq> None then Inr \<lparr>IsDir = False\<rparr>
      else Inl ''stat: no such file or directory'')"

definition demoRead :: "demoWorld \<Rightarrow> string \<Rightarrow> err + byte list" where
  "demoRead w p =
     (case map_of (files w) p of
        None \<Rightarrow> Inl ''open: no such file or directory''
      | Some bytes \<Rightarrow> Inr bytes)"

text \<open>A stand-in for the digest: the proofs never depend on which function it is.\<close>

definition demoDigest :: "byte list \<Rightarrow> byte list" where
  "demoDigest bytes = rev bytes"

text \<open>
  Three handlers: a compiler for \<^verbatim>\<open>.go\<close> files that takes 20 ms and rewrites the file it
  compiles, a handler for \<^verbatim>\<open>.go\<close> files that always fails, and an asset handler.
\<close>

definition compileHandler :: "demoWorld FilesEventHandler" where
  "compileHandler =
     \<lparr>MainInputFileRelativePath = ''web/main.go'',
      NewFileEvent = (\<lambda>fileName extension filePath event w.
         (None, w\<lparr>clock := clock w + 20 * Millisecond,
                   files := (filePath, [103, 111]) # files w\<rparr>)),
      SupportedExtensions = [''.go'']\<rparr>"

definition failingHandler :: "demoWorld FilesEventHandler" where
  "failingHandler =
     \<lparr>MainInputFileRelativePath = ''server/main.go'',
      NewFileEvent = (\<lambda>fileName extension filePath event w. (Some ''build failed'', w)),
      SupportedExtensions = [''.go'']\<rparr>"

definition assetHandler :: "demoWorld FilesEventHandler" where
  "assetHandler =
     \<lparr>MainInputFileRelativePath = ''web/main.js'',
      NewFileEvent = (\<lambda>fileName extension filePath event w. (None, w)),
      SupportedExtensions = [''.css'', ''.js'']\<rparr>"

text \<open>
  The oracle of the project: it cannot answer for the target \<^verbatim>\<open>server/main.go\<close>, and every
  file but \<^verbatim>\<open>lib/other.go\<close> belongs to the target \<^verbatim>\<open>web/main.go\<close>.
\<close>

definition demoMine :: "string \<Rightarrow> string \<Rightarrow> string \<Rightarrow> demoWorld \<Rightarrow> (bool \<times> err option) \<times> demoWorld" where
  "demoMine mainPath filePath event w =
     (if mainPath = ''server/main.go'' then ((False, Some ''cannot load packages''), w)
      else ((mainPath = ''web/main.go'' \<and> filePath \<noteq> ''lib/other.go'', None), w))"

definition demoTree :: fstree where
  "demoTree =
     Dir [(''.git'', Dir [(''objects'', Dir [])]),
          (''a'', Dir [(''b'', Dir [])]),
          (''broken'', UnreadableDir),
          (''f.go'', NotDir),
          (''gone'', LstatErr),
          (''z'', Dir [])]"

definition demoWatch :: "demoWorld DevWatch" where
  "demoWatch =
     \<lparr>FilesEventHandlers = [failingHandler, compileHandler, assetHandler],
      FolderEvents = None,
      BrowserReload = Some (\<lambda>w. (None, w\<lparr>reloadCount := Suc (reloadCount w)\<rparr>)),
      Contain = (\<lambda>p. take 4 p = ''.git'' \<or> p = ''new/.git'' \<or> p = ''new/.git/objects''),
      GetFileName = (\<lambda>p. if p = [] then ([], Some ''empty path'') else (p, None)),
      ThisFileIsMine = demoMine,
      watcherAdd = (\<lambda>p w. (None, w\<lparr>watched := watched w @ [p]\<rparr>)),
      osStat = demoStat,
      readFile = demoRead,
      sha256Sum = demoDigest,
      timeNow = clock,
      walkTree = (\<lambda>w p. if p = ''new'' then demoTree else LstatErr)\<rparr>"

definition demoWorld0 :: demoWorld where
  "demoWorld0 =
     \<lparr>clock = 0,
      files = [(''web/main.go'', [109]), (''web/style.css'', [99]), (''.git/config'', [91])],
      dirs = [''web'', ''new''], reloadCount = 0, watched = []\<rparr>"

definition demoState :: "Timer option \<Rightarrow> demoWorld state" where
  "demoState rt =
     \<lparr>world = demoWorld0, lastEventInfo = Map.empty, reloadTimer = rt, trace = []\<rparr>"

text \<open>
  The state at time \<open>t\<close> in which the style sheet has a record of time 0 with the
  fingerprint \<open>fp\<close>.
\<close>

definition demoRecorded :: "int \<Rightarrow> byte list \<Rightarrow> demoWorld state" where
  "demoRecorded t fp =
     \<lparr>world = demoWorld0\<lparr>clock := t\<rparr>,
      lastEventInfo = [''web/style.css'' \<mapsto> \<lparr>lastTime = 0, lastHash = fp\<rparr>],
      reloadTimer = None, trace = []\<rparr>"




section \<open>Theorems\<close>

subsection \<open>What the dispatch of one event does\<close>

lemma invokeIfMine_shape:
  assumes "invokeIfMine m i hdl fn ext en et (ps, go, st) = (ps', go', st')"
  shows "lastEventInfo st' = lastEventInfo st \<and> reloadTimer st' = reloadTimer st
    \<and> (\<exists>es. trace st' = trace st @ es
          \<and> ((\<not> m \<and> es = [] \<and> ps' = ps \<and> go' = go)
             \<or> (m \<and> (\<exists>r. es = [EHandler i r]
                     \<and> (r = None \<longrightarrow> ps' \<and> (go' \<longleftrightarrow> go \<or> ext = ''.go''))
                     \<and> (r \<noteq> None \<longrightarrow> ps' = ps \<and> go' = go)))))"
  using assms
  by (auto simp: invokeIfMine_def emit_def Let_def split: prod.splits if_splits)

lemma handlerStep_shape:
  assumes "handlerStep h fn ext en et del i hdl (ps, go, st) = (ps', go', st')"
  shows "lastEventInfo st' = lastEventInfo st \<and> reloadTimer st' = reloadTimer st
    \<and> (\<exists>es. trace st' = trace st @ es
          \<and> (if ext \<notin> set (SupportedExtensions hdl) then es = [] \<and> ps' = ps \<and> go' = go
             else if \<not> del \<and> ext = ''.go'' then
               (\<exists>m e. es = [EOracle i m e] \<and> (e \<noteq> None \<or> \<not> m) \<and> ps' = ps \<and> go' = go)
               \<or> (\<exists>r. es = [EOracle i True None, EHandler i r]
                     \<and> (r = None \<longrightarrow> ps' \<and> go')
                     \<and> (r \<noteq> None \<longrightarrow> ps' = ps \<and> go' = go))
             else (\<exists>r. es = [EHandler i r]
                     \<and> (r = None \<longrightarrow> ps' \<and> (go' \<longleftrightarrow> go \<or> ext = ''.go''))
                     \<and> (r \<noteq> None \<longrightarrow> ps' = ps \<and> go' = go))))"
proof (cases "ext \<in> set (SupportedExtensions hdl)")
  case False
  with assms show ?thesis by (simp add: handlerStep_def)
next
  case sup: True
  show ?thesis
  proof (cases "\<not> del \<and> ext = ''.go''")
    case False
    with sup assms have "invokeIfMine True i hdl fn ext en et (ps, go, st) = (ps', go', st')"
      by (auto simp: handlerStep_def)
    from invokeIfMine_shape [OF this] sup False show ?thesis by auto
  next
    case True
    obtain m e w' where o: "ThisFileIsMine h (MainInputFileRelativePath hdl) en et (world st) = ((m, e), w')"
      by (metis prod.exhaust)
    define st1 where "st1 = emit (EOracle i m e) (st\<lparr>world := w'\<rparr>)"
    have st1: "lastEventInfo st1 = lastEventInfo st" "reloadTimer st1 = reloadTimer st"
      "trace st1 = trace st @ [EOracle i m e]"
      by (simp_all add: st1_def emit_def)
    show ?thesis
    proof (cases "e = None")
      case False
      with assms sup True o have "(ps', go', st') = (ps, go, st1)"
        by (auto simp: handlerStep_def st1_def)
      with st1 sup True False show ?thesis by auto
    next
      case eN: True
      with assms sup True o have "invokeIfMine m i hdl fn ext en et (ps, go, st1) = (ps', go', st')"
        by (auto simp: handlerStep_def st1_def)
      from invokeIfMine_shape [OF this] st1 sup True eN show ?thesis by auto
    qed
  qed
qed



lemma handlerStep_cases:
  assumes "handlerStep h fn ext en et del i hdl (ps, go, st) = (ps', go', st')"
  obtains
    (unsupported) "ext \<notin> set (SupportedExtensions hdl)" "trace st' = trace st"
      "ps' = ps" "go' = go"
  | (declined) m e where "ext \<in> set (SupportedExtensions hdl)" "\<not> del" "ext = ''.go''"
      "trace st' = trace st @ [EOracle i m e]" "e \<noteq> None \<or> \<not> m" "ps' = ps" "go' = go"
  | (owned) r where "ext \<in> set (SupportedExtensions hdl)" "\<not> del" "ext = ''.go''"
      "trace st' = trace st @ [EOracle i True None, EHandler i r]"
      "r = None \<longrightarrow> ps' \<and> go'" "r \<noteq> None \<longrightarrow> ps' = ps \<and> go' = go"
  | (direct) r where "ext \<in> set (SupportedExtensions hdl)" "del \<or> ext \<noteq> ''.go''"
      "trace st' = trace st @ [EHandler i r]"
      "r = None \<longrightarrow> ps' \<and> (go' \<longleftrightarrow> go \<or> ext = ''.go'')"
      "r \<noteq> None \<longrightarrow> ps' = ps \<and> go' = go"
proof -
  from handlerStep_shape [OF assms] obtain es where
    t: "trace st' = trace st @ es"
    and sh: "if ext \<notin> set (SupportedExtensions hdl) then es = [] \<and> ps' = ps \<and> go' = go
             else if \<not> del \<and> ext = ''.go'' then
               (\<exists>m e. es = [EOracle i m e] \<and> (e \<noteq> None \<or> \<not> m) \<and> ps' = ps \<and> go' = go)
               \<or> (\<exists>r. es = [EOracle i True None, EHandler i r]
                     \<and> (r = None \<longrightarrow> ps' \<and> go')
                     \<and> (r \<noteq> None \<longrightarrow> ps' = ps \<and> go' = go))
             else (\<exists>r. es = [EHandler i r]
                     \<and> (r = None \<longrightarrow> ps' \<and> (go' \<longleftrightarrow> go \<or> ext = ''.go''))
                     \<and> (r \<noteq> None \<longrightarrow> ps' = ps \<and> go' = go))"
    by (elim conjE exE)
  show thesis
  proof (cases "ext \<in> set (SupportedExtensions hdl)")
    case False
    with sh t show thesis by (intro unsupported) simp_all
  next
    case sup: True
    show thesis
    proof (cases "\<not> del \<and> ext = ''.go''")
      case False
      with sup sh obtain r where "es = [EHandler i r]"
        "r = None \<longrightarrow> ps' \<and> (go' \<longleftrightarrow> go \<or> ext = ''.go'')" "r \<noteq> None \<longrightarrow> ps' = ps \<and> go' = go"
        by (simp split: if_splits) blast
      with sup False t show thesis by (intro direct [of r]) simp_all
    next
      case True
      with sup sh consider
        (a) m e where "es = [EOracle i m e]" "e \<noteq> None \<or> \<not> m" "ps' = ps" "go' = go"
      | (b) r where "es = [EOracle i True None, EHandler i r]"
          "r = None \<longrightarrow> ps' \<and> go'" "r \<noteq> None \<longrightarrow> ps' = ps \<and> go' = go"
        by (simp split: if_splits) blast
      then show thesis
      proof cases
        case a
        with sup True t show thesis by (intro declined [of m e]) simp_all
      next
        case b
        with sup True t show thesis by (intro owned [of r]) simp_all
      qed
    qed
  qed
qed

text \<open>What one handler adds to the trace, and to the two flags.\<close>

lemma handlerStep_spec:
  assumes "handlerStep h fn ext en et del i hdl (ps, go, st) = (ps', go', st')"
  shows "\<exists>es. trace st' = trace st @ es
    \<and> (\<forall>e\<in>set es. (\<exists>r. e = EHandler i r) \<or> (\<exists>m x. e = EOracle i m x))
    \<and> (\<forall>r. EHandler i r \<in> set es \<longrightarrow> ext \<in> set (SupportedExtensions hdl)
           \<and> (\<not> del \<and> ext = ''.go'' \<longrightarrow> EOracle i True None \<in> set es))
    \<and> (\<forall>m x. EOracle i m x \<in> set es \<longrightarrow> ext \<in> set (SupportedExtensions hdl)
           \<and> \<not> del \<and> ext = ''.go''
           \<and> (x \<noteq> None \<or> \<not> m \<longrightarrow> (\<forall>r. EHandler i r \<notin> set es))
           \<and> (m \<and> x = None \<longrightarrow> (\<exists>r. EHandler i r \<in> set es)))
    \<and> (ext \<in> set (SupportedExtensions hdl) \<longrightarrow>
          (if \<not> del \<and> ext = ''.go'' then \<exists>m x. EOracle i m x \<in> set es
           else \<exists>r. EHandler i r \<in> set es))
    \<and> (ps' \<longleftrightarrow> ps \<or> EHandler i None \<in> set es)
    \<and> (go' \<longleftrightarrow> go \<or> (ext = ''.go'' \<and> EHandler i None \<in> set es))"
  using assms
proof (cases rule: handlerStep_cases)
  case unsupported
  then show ?thesis by (intro exI [of _ "[]"]) simp
next
  case (declined m e)
  then show ?thesis by (intro exI [of _ "[EOracle i m e]"]) auto
next
  case (owned r)
  then show ?thesis by (intro exI [of _ "[EOracle i True None, EHandler i r]"]) auto
next
  case (direct r)
  then show ?thesis by (intro exI [of _ "[EHandler i r]"]) auto
qed


lemma handlersLoop_spec:
  assumes "handlersLoop h fn ext en et del i hs (ps, go, st) = (ps', go', st')"
  shows "\<exists>tr. trace st' = trace st @ tr
        \<and> (\<forall>e\<in>set tr. (\<exists>j r. e = EHandler j r) \<or> (\<exists>j m x. e = EOracle j m x))
        \<and> (\<forall>j r. EHandler j r \<in> set tr \<longrightarrow>
              i \<le> j \<and> j < i + length hs \<and> ext \<in> set (SupportedExtensions (hs ! (j - i)))
              \<and> (\<not> del \<and> ext = ''.go'' \<longrightarrow> EOracle j True None \<in> set tr))
        \<and> (\<forall>j m x. EOracle j m x \<in> set tr \<longrightarrow>
              i \<le> j \<and> j < i + length hs \<and> ext \<in> set (SupportedExtensions (hs ! (j - i)))
              \<and> \<not> del \<and> ext = ''.go''
              \<and> (x \<noteq> None \<or> \<not> m \<longrightarrow> (\<forall>r. EHandler j r \<notin> set tr))
              \<and> (m \<and> x = None \<longrightarrow> (\<exists>r. EHandler j r \<in> set tr)))
        \<and> (\<forall>k<length hs. ext \<in> set (SupportedExtensions (hs ! k)) \<longrightarrow>
              (if \<not> del \<and> ext = ''.go'' then \<exists>m x. EOracle (i + k) m x \<in> set tr
               else \<exists>r. EHandler (i + k) r \<in> set tr))
        \<and> (ps' \<longleftrightarrow> ps \<or> (\<exists>j. EHandler j None \<in> set tr))
        \<and> (go' \<longleftrightarrow> go \<or> (ext = ''.go'' \<and> (\<exists>j. EHandler j None \<in> set tr)))"
  using assms
proof (induction hs arbitrary: i ps go st)
  case Nil
  then show ?case by simp
next
  case (Cons hdl rest)
  obtain ps1 go1 st1 where step: "handlerStep h fn ext en et del i hdl (ps, go, st) = (ps1, go1, st1)"
    by (metis prod.exhaust)
  with Cons.prems have loop: "handlersLoop h fn ext en et del (Suc i) rest (ps1, go1, st1) = (ps', go', st')"
    by simp
  from handlerStep_spec [OF step] obtain es where
    t1: "trace st1 = trace st @ es"
    and e1: "\<forall>e\<in>set es. (\<exists>r. e = EHandler i r) \<or> (\<exists>m x. e = EOracle i m x)"
    and e2: "\<forall>r. EHandler i r \<in> set es \<longrightarrow> ext \<in> set (SupportedExtensions hdl)
           \<and> (\<not> del \<and> ext = ''.go'' \<longrightarrow> EOracle i True None \<in> set es)"
    and e3: "\<forall>m x. EOracle i m x \<in> set es \<longrightarrow> ext \<in> set (SupportedExtensions hdl)
           \<and> \<not> del \<and> ext = ''.go''
           \<and> (x \<noteq> None \<or> \<not> m \<longrightarrow> (\<forall>r. EHandler i r \<notin> set es))
           \<and> (m \<and> x = None \<longrightarrow> (\<exists>r. EHandler i r \<in> set es))"
    and e4: "ext \<in> set (SupportedExtensions hdl) \<longrightarrow>
          (if \<not> del \<and> ext = ''.go'' then \<exists>m x. EOracle i m x \<in> set es
           else \<exists>r. EHandler i r \<in> set es)"
    and e5: "ps1 \<longleftrightarrow> ps \<or> EHandler i None \<in> set es"
    and e6: "go1 \<longleftrightarrow> go \<or> (ext = ''.go'' \<and> EHandler i None \<in> set es)"
    by (elim exE conjE)
  from Cons.IH [OF loop] obtain tr where
    t2: "trace st' = trace st1 @ tr"
    and kinds: "\<forall>e\<in>set tr. (\<exists>j r. e = EHandler j r) \<or> (\<exists>j m x. e = EOracle j m x)"
    and hnd: "\<forall>j r. EHandler j r \<in> set tr \<longrightarrow>
              Suc i \<le> j \<and> j < Suc i + length rest \<and> ext \<in> set (SupportedExtensions (rest ! (j - Suc i)))
              \<and> (\<not> del \<and> ext = ''.go'' \<longrightarrow> EOracle j True None \<in> set tr)"
    and orc: "\<forall>j m x. EOracle j m x \<in> set tr \<longrightarrow>
              Suc i \<le> j \<and> j < Suc i + length rest \<and> ext \<in> set (SupportedExtensions (rest ! (j - Suc i)))
              \<and> \<not> del \<and> ext = ''.go''
              \<and> (x \<noteq> None \<or> \<not> m \<longrightarrow> (\<forall>r. EHandler j r \<notin> set tr))
              \<and> (m \<and> x = None \<longrightarrow> (\<exists>r. EHandler j r \<in> set tr))"
    and cov: "\<forall>k<length rest. ext \<in> set (SupportedExtensions (rest ! k)) \<longrightarrow>
              (if \<not> del \<and> ext = ''.go'' then \<exists>m x. EOracle (Suc i + k) m x \<in> set tr
               else \<exists>r. EHandler (Suc i + k) r \<in> set tr)"
    and fps: "ps' \<longleftrightarrow> ps1 \<or> (\<exists>j. EHandler j None \<in> set tr)"
    and fgo: "go' \<longleftrightarrow> go1 \<or> (ext = ''.go'' \<and> (\<exists>j. EHandler j None \<in> set tr))"
    by (elim exE conjE)
  have trH: "\<And>j r. EHandler j r \<in> set tr \<Longrightarrow> Suc i \<le> j" using hnd by blast
  have trO: "\<And>j m x. EOracle j m x \<in> set tr \<Longrightarrow> Suc i \<le> j" using orc by blast
  have esH: "\<And>j r. EHandler j r \<in> set es \<Longrightarrow> j = i" using e1 by blast
  have esO: "\<And>j m x. EOracle j m x \<in> set es \<Longrightarrow> j = i" using e1 by blast
  have nth: "\<And>j. Suc i \<le> j \<Longrightarrow> (hdl # rest) ! (j - i) = rest ! (j - Suc i)"
    by (simp add: Suc_diff_le)
  have c1: "\<forall>e\<in>set (es @ tr). (\<exists>j r. e = EHandler j r) \<or> (\<exists>j m x. e = EOracle j m x)"
  proof
    fix e assume "e \<in> set (es @ tr)"
    then consider "e \<in> set es" | "e \<in> set tr" by auto
    then show "(\<exists>j r. e = EHandler j r) \<or> (\<exists>j m x. e = EOracle j m x)"
    proof cases
      case 1
      from bspec [OF e1 1] show ?thesis by auto
    next
      case 2
      from bspec [OF kinds 2] show ?thesis .
    qed
  qed
  have c2: "\<forall>j r. EHandler j r \<in> set (es @ tr) \<longrightarrow>
              i \<le> j \<and> j < i + length (hdl # rest) \<and> ext \<in> set (SupportedExtensions ((hdl # rest) ! (j - i)))
              \<and> (\<not> del \<and> ext = ''.go'' \<longrightarrow> EOracle j True None \<in> set (es @ tr))"
  proof (intro allI impI)
    fix j r assume "EHandler j r \<in> set (es @ tr)"
    then consider "EHandler j r \<in> set es" | "EHandler j r \<in> set tr" by auto
    then show "i \<le> j \<and> j < i + length (hdl # rest) \<and> ext \<in> set (SupportedExtensions ((hdl # rest) ! (j - i)))
              \<and> (\<not> del \<and> ext = ''.go'' \<longrightarrow> EOracle j True None \<in> set (es @ tr))"
    proof cases
      case 1
      then have ji: "j = i" by (rule esH)
      from 1 ji have "EHandler i r \<in> set es" by simp
      from e2 [rule_format, OF this] ji show ?thesis by simp
    next
      case 2
      from hnd [rule_format, OF 2] nth [of j] show ?thesis by simp
    qed
  qed
  have c3: "\<forall>j m x. EOracle j m x \<in> set (es @ tr) \<longrightarrow>
              i \<le> j \<and> j < i + length (hdl # rest) \<and> ext \<in> set (SupportedExtensions ((hdl # rest) ! (j - i)))
              \<and> \<not> del \<and> ext = ''.go''
              \<and> (x \<noteq> None \<or> \<not> m \<longrightarrow> (\<forall>r. EHandler j r \<notin> set (es @ tr)))
              \<and> (m \<and> x = None \<longrightarrow> (\<exists>r. EHandler j r \<in> set (es @ tr)))"
  proof (intro allI impI)
    fix j m x assume "EOracle j m x \<in> set (es @ tr)"
    then consider "EOracle j m x \<in> set es" | "EOracle j m x \<in> set tr" by auto
    then show "i \<le> j \<and> j < i + length (hdl # rest) \<and> ext \<in> set (SupportedExtensions ((hdl # rest) ! (j - i)))
              \<and> \<not> del \<and> ext = ''.go''
              \<and> (x \<noteq> None \<or> \<not> m \<longrightarrow> (\<forall>r. EHandler j r \<notin> set (es @ tr)))
              \<and> (m \<and> x = None \<longrightarrow> (\<exists>r. EHandler j r \<in> set (es @ tr)))"
    proof cases
      case 1
      then have ji: "j = i" by (rule esO)
      have no: "\<And>r. EHandler i r \<notin> set tr" using trH by fastforce
      from 1 ji e3 have
        "ext \<in> set (SupportedExtensions hdl)" "\<not> del" "ext = ''.go''"
        "x \<noteq> None \<or> \<not> m \<longrightarrow> (\<forall>r. EHandler i r \<notin> set es)"
        "m \<and> x = None \<longrightarrow> (\<exists>r. EHandler i r \<in> set es)"
        by blast+
      with ji no show ?thesis by auto
    next
      case 2
      have no: "\<And>r. EHandler j r \<notin> set es" using esH trO [OF 2] by fastforce
      from orc [rule_format, OF 2] nth [of j] no show ?thesis by auto
    qed
  qed
  have c4: "\<forall>k<length (hdl # rest). ext \<in> set (SupportedExtensions ((hdl # rest) ! k)) \<longrightarrow>
              (if \<not> del \<and> ext = ''.go'' then \<exists>m x. EOracle (i + k) m x \<in> set (es @ tr)
               else \<exists>r. EHandler (i + k) r \<in> set (es @ tr))"
  proof (intro allI impI)
    fix k assume k: "k < length (hdl # rest)" and s: "ext \<in> set (SupportedExtensions ((hdl # rest) ! k))"
    show "if \<not> del \<and> ext = ''.go'' then \<exists>m x. EOracle (i + k) m x \<in> set (es @ tr)
               else \<exists>r. EHandler (i + k) r \<in> set (es @ tr)"
    proof (cases k)
      case 0
      with s e4 have "if \<not> del \<and> ext = ''.go'' then \<exists>m x. EOracle i m x \<in> set es
           else \<exists>r. EHandler i r \<in> set es" by simp
      with 0 show ?thesis by (auto split: if_splits)
    next
      case (Suc k')
      from Suc k have k': "k' < length rest" by simp
      from Suc s have s': "ext \<in> set (SupportedExtensions (rest ! k'))" by simp
      from cov [rule_format, OF k' s']
      have "if \<not> del \<and> ext = ''.go'' then \<exists>m x. EOracle (Suc i + k') m x \<in> set tr
               else \<exists>r. EHandler (Suc i + k') r \<in> set tr" .
      with Suc show ?thesis by (auto split: if_splits)
    qed
  qed
  have c5: "ps' \<longleftrightarrow> ps \<or> (\<exists>j. EHandler j None \<in> set (es @ tr))"
    using fps e5 esH by auto
  have c6: "go' \<longleftrightarrow> go \<or> (ext = ''.go'' \<and> (\<exists>j. EHandler j None \<in> set (es @ tr)))"
    using fgo e6 esH by auto
  have c0: "trace st' = trace st @ (es @ tr)" using t1 t2 by simp
  show ?case
    by (rule exI [of _ "es @ tr"]) (intro conjI c0 c1 c2 c3 c4 c5 c6)
qed

lemma handlerStep_frame:
  "lastEventInfo (snd (snd (handlerStep h fn ext en et del i hdl acc))) = lastEventInfo (snd (snd acc))
   \<and> reloadTimer (snd (snd (handlerStep h fn ext en et del i hdl acc))) = reloadTimer (snd (snd acc))"
  by (cases acc) (auto simp: handlerStep_def invokeIfMine_def emit_def Let_def split: prod.splits)

lemma handlersLoop_frame:
  "lastEventInfo (snd (snd (handlersLoop h fn ext en et del i hs acc))) = lastEventInfo (snd (snd acc))
   \<and> reloadTimer (snd (snd (handlersLoop h fn ext en et del i hs acc))) = reloadTimer (snd (snd acc))"
  by (induction hs arbitrary: i acc) (simp_all add: handlerStep_frame)


lemma handleFileEvent_spec:
  fixes h :: "'w DevWatch" and st :: "'w state"
  shows "\<exists>tr. trace (handleFileEvent h fileName name eventType isDel st)
          = trace st @ tr @ (if \<exists>j. EHandler j None \<in> set tr then [EScheduleReload] else [])
        \<and> (\<forall>e\<in>set tr. (\<exists>j r. e = EHandler j r) \<or> (\<exists>j m x. e = EOracle j m x))
        \<and> (\<forall>j r. EHandler j r \<in> set tr \<longrightarrow>
              j < length (FilesEventHandlers h)
              \<and> Ext name \<in> set (SupportedExtensions (FilesEventHandlers h ! j))
              \<and> (\<not> isDel \<and> Ext name = ''.go'' \<longrightarrow> EOracle j True None \<in> set tr))
        \<and> (\<forall>j m x. EOracle j m x \<in> set tr \<longrightarrow>
              j < length (FilesEventHandlers h)
              \<and> Ext name \<in> set (SupportedExtensions (FilesEventHandlers h ! j))
              \<and> \<not> isDel \<and> Ext name = ''.go''
              \<and> (x \<noteq> None \<or> \<not> m \<longrightarrow> (\<forall>r. EHandler j r \<notin> set tr))
              \<and> (m \<and> x = None \<longrightarrow> (\<exists>r. EHandler j r \<in> set tr)))
        \<and> (\<forall>k<length (FilesEventHandlers h).
              Ext name \<in> set (SupportedExtensions (FilesEventHandlers h ! k)) \<longrightarrow>
              (if \<not> isDel \<and> Ext name = ''.go'' then \<exists>m x. EOracle k m x \<in> set tr
               else \<exists>r. EHandler k r \<in> set tr))"
proof -
  obtain ps' go' st' where loop:
    "handlersLoop h fileName (Ext name) name eventType isDel 0 (FilesEventHandlers h)
       (False, False, st) = (ps', go', st')"
    by (metis prod.exhaust)
  from handlersLoop_spec [OF loop] obtain tr where
    t: "trace st' = trace st @ tr"
    and c1: "\<forall>e\<in>set tr. (\<exists>j r. e = EHandler j r) \<or> (\<exists>j m x. e = EOracle j m x)"
    and c2: "\<forall>j r. EHandler j r \<in> set tr \<longrightarrow>
              0 \<le> j \<and> j < 0 + length (FilesEventHandlers h)
              \<and> Ext name \<in> set (SupportedExtensions (FilesEventHandlers h ! (j - 0)))
              \<and> (\<not> isDel \<and> Ext name = ''.go'' \<longrightarrow> EOracle j True None \<in> set tr)"
    and c3: "\<forall>j m x. EOracle j m x \<in> set tr \<longrightarrow>
              0 \<le> j \<and> j < 0 + length (FilesEventHandlers h)
              \<and> Ext name \<in> set (SupportedExtensions (FilesEventHandlers h ! (j - 0)))
              \<and> \<not> isDel \<and> Ext name = ''.go''
              \<and> (x \<noteq> None \<or> \<not> m \<longrightarrow> (\<forall>r. EHandler j r \<notin> set tr))
              \<and> (m \<and> x = None \<longrightarrow> (\<exists>r. EHandler j r \<in> set tr))"
    and c4: "\<forall>k<length (FilesEventHandlers h).
              Ext name \<in> set (SupportedExtensions (FilesEventHandlers h ! k)) \<longrightarrow>
              (if \<not> isDel \<and> Ext name = ''.go'' then \<exists>m x. EOracle (0 + k) m x \<in> set tr
               else \<exists>r. EHandler (0 + k) r \<in> set tr)"
    and c5: "ps' \<longleftrightarrow> False \<or> (\<exists>j. EHandler j None \<in> set tr)"
    and c6: "go' \<longleftrightarrow> False \<or> (Ext name = ''.go'' \<and> (\<exists>j. EHandler j None \<in> set tr))"
    by (elim exE conjE)
  have sched: "((Ext name = ''.go'' \<and> go') \<or> (Ext name \<noteq> ''.go'' \<and> ps'))
                 \<longleftrightarrow> (\<exists>j. EHandler j None \<in> set tr)"
    using c5 c6 by simp blast
  have tr: "trace (handleFileEvent h fileName name eventType isDel st)
          = trace st @ tr @ (if \<exists>j. EHandler j None \<in> set tr then [EScheduleReload] else [])"
    using loop t sched by (simp add: handleFileEvent_def Let_def emit_def)
  have c2': "\<forall>j r. EHandler j r \<in> set tr \<longrightarrow>
              j < length (FilesEventHandlers h)
              \<and> Ext name \<in> set (SupportedExtensions (FilesEventHandlers h ! j))
              \<and> (\<not> isDel \<and> Ext name = ''.go'' \<longrightarrow> EOracle j True None \<in> set tr)"
    using c2 by (simp only: add_0 diff_zero le0 simp_thms)
  have c3': "\<forall>j m x. EOracle j m x \<in> set tr \<longrightarrow>
              j < length (FilesEventHandlers h)
              \<and> Ext name \<in> set (SupportedExtensions (FilesEventHandlers h ! j))
              \<and> \<not> isDel \<and> Ext name = ''.go''
              \<and> (x \<noteq> None \<or> \<not> m \<longrightarrow> (\<forall>r. EHandler j r \<notin> set tr))
              \<and> (m \<and> x = None \<longrightarrow> (\<exists>r. EHandler j r \<in> set tr))"
    using c3 by (simp only: add_0 diff_zero le0 simp_thms)
  have c4': "\<forall>k<length (FilesEventHandlers h).
              Ext name \<in> set (SupportedExtensions (FilesEventHandlers h ! k)) \<longrightarrow>
              (if \<not> isDel \<and> Ext name = ''.go'' then \<exists>m x. EOracle k m x \<in> set tr
               else \<exists>r. EHandler k r \<in> set tr)"
    using c4 by (simp only: add_0 diff_zero le0 simp_thms)
  show ?thesis
    by (rule exI [of _ tr]) (intro conjI tr c1 c2' c3' c4')
qed

lemma handleFileEvent_lastEventInfo:
  "lastEventInfo (handleFileEvent h fileName name eventType isDel st) = lastEventInfo st"
proof -
  obtain ps' go' st' where loop:
    "handlersLoop h fileName (Ext name) name eventType isDel 0 (FilesEventHandlers h)
       (False, False, st) = (ps', go', st')"
    by (metis prod.exhaust)
  from handlersLoop_frame [of h fileName "Ext name" name eventType isDel 0 "FilesEventHandlers h"
      "(False, False, st)"] loop
  have "lastEventInfo st' = lastEventInfo st" by simp
  with loop show ?thesis by (simp add: handleFileEvent_def Let_def emit_def)
qed

lemma shouldProcess_cases:
  "shouldProcess h name now st =
     (case lastEventInfo st name of
        None \<Rightarrow> (True, st)
      | Some r \<Rightarrow>
          if now - lastTime r \<le> debounceWindow
          then (calculateFileHash h (world st) name \<noteq> lastHash r, emit (EHash name) st)
          else (True, st))"
  by (simp add: shouldProcess_def Let_def split: option.splits)

lemma recordEvent_eq:
  "recordEvent h name now st =
     st\<lparr>lastEventInfo := (lastEventInfo st)
            (name \<mapsto> \<lparr>lastTime = now, lastHash = calculateFileHash h (world st) name\<rparr>),
        trace := trace st @ [EHash name,
            ERecord name \<lparr>lastTime = now, lastHash = calculateFileHash h (world st) name\<rparr>]\<rparr>"
  by (simp add: recordEvent_def emit_def Let_def)

lemma handleFileEvent_no_record:
  "\<exists>tr. trace (handleFileEvent h fileName name eventType isDel st) = trace st @ tr
     \<and> (\<forall>e\<in>set tr. (\<exists>j r. e = EHandler j r) \<or> (\<exists>j m x. e = EOracle j m x)
            \<or> e = EScheduleReload)"
proof -
  from handleFileEvent_spec [of h fileName name eventType isDel st] obtain tr where
    t: "trace (handleFileEvent h fileName name eventType isDel st)
          = trace st @ tr @ (if \<exists>j. EHandler j None \<in> set tr then [EScheduleReload] else [])"
    and k: "\<forall>e\<in>set tr. (\<exists>j r. e = EHandler j r) \<or> (\<exists>j m x. e = EOracle j m x)"
    by (elim exE conjE)
  show ?thesis
    by (rule exI [of _ "tr @ (if \<exists>j. EHandler j None \<in> set tr then [EScheduleReload] else [])"])
       (use t k in auto)
qed

subsection \<open>The debounce decision\<close>

text \<open>
  C1. Content-aware debounce. For a file event on the path \<open>name\<close> that has reached the
  debounce (lines 75-115), at the time \<open>now\<close> read at line 77: with no record for the path
  the event is processed; with a record whose time lies more than the 50 ms window back
  the event is processed, and no fingerprint is computed for the decision (the dispatch
  starts from the unchanged state); with a record within the window the fingerprint of the
  file is computed, and the event is processed if it differs from the stored one and
  skipped (nothing but the fingerprint computation happens) if it is equal. Processing is
  the dispatch \<open>handleFileEvent\<close> followed by the record \<open>recordEvent\<close>.
\<close>

theorem content_aware_debounce:
  fixes h :: "'w DevWatch" and st :: "'w state"
  defines "now \<equiv> timeNow h (world st)"
  shows
   "(lastEventInfo st name = None \<longrightarrow>
       fileEvent h fileName name eventType isDel st =
         recordEvent h name now (handleFileEvent h fileName name eventType isDel st))
  \<and> (\<forall>r. lastEventInfo st name = Some r \<and> now - lastTime r > debounceWindow \<longrightarrow>
       fileEvent h fileName name eventType isDel st =
         recordEvent h name now (handleFileEvent h fileName name eventType isDel st))
  \<and> (\<forall>r. lastEventInfo st name = Some r \<and> now - lastTime r \<le> debounceWindow
          \<and> calculateFileHash h (world st) name \<noteq> lastHash r \<longrightarrow>
       fileEvent h fileName name eventType isDel st =
         recordEvent h name now
           (handleFileEvent h fileName name eventType isDel (emit (EHash name) st)))
  \<and> (\<forall>r. lastEventInfo st name = Some r \<and> now - lastTime r \<le> debounceWindow
          \<and> calculateFileHash h (world st) name = lastHash r \<longrightarrow>
       fileEvent h fileName name eventType isDel st = emit (EHash name) st)"
  by (simp add: fileEvent_def shouldProcess_def now_def Let_def)

subsection \<open>The record is written after the dispatch\<close>

text \<open>
  C2. Record after dispatch. The decision \<open>d\<close> for an event is taken from the record of
  the path in the map as it stood before the event. For a processed event the dispatch
  \<open>st2\<close> leaves the map untouched; the record of the path is then overwritten with the
  time \<open>now\<close> and the fingerprint of the file read in the world after the dispatch; in
  the trace every call of an oracle or a handler and the scheduling of the reload come
  before the fingerprint computation and the write of the record, which are the last two
  actions. A skipped event leaves the map as it was.
\<close>

theorem record_after_dispatch:
  fixes h :: "'w DevWatch" and st :: "'w state"
    and name fileName eventType :: string and isDel :: bool
  defines "now \<equiv> timeNow h (world st)"
  defines "d \<equiv> shouldProcess h name now st"
  defines "st2 \<equiv> handleFileEvent h fileName name eventType isDel (snd d)"
  defines "key \<equiv> \<lparr>lastTime = now, lastHash = calculateFileHash h (world st2) name\<rparr>"
  shows
   "fst d = (case lastEventInfo st name of
               None \<Rightarrow> True
             | Some r \<Rightarrow> now - lastTime r > debounceWindow
                          \<or> calculateFileHash h (world st) name \<noteq> lastHash r)
  \<and> (fst d \<longrightarrow>
        lastEventInfo st2 = lastEventInfo st
      \<and> lastEventInfo (fileEvent h fileName name eventType isDel st) = (lastEventInfo st)(name \<mapsto> key)
      \<and> (\<exists>tr. trace (fileEvent h fileName name eventType isDel st)
                  = trace (snd d) @ tr @ [EHash name, ERecord name key]
              \<and> trace st2 = trace (snd d) @ tr
              \<and> (\<forall>e\<in>set tr. (\<exists>j r. e = EHandler j r) \<or> (\<exists>j m x. e = EOracle j m x)
                     \<or> e = EScheduleReload)))
  \<and> (\<not> fst d \<longrightarrow>
        fileEvent h fileName name eventType isDel st = emit (EHash name) st
      \<and> lastEventInfo (fileEvent h fileName name eventType isDel st) = lastEventInfo st)"
proof (intro conjI impI)
  show "fst d = (case lastEventInfo st name of
               None \<Rightarrow> True
             | Some r \<Rightarrow> now - lastTime r > debounceWindow
                          \<or> calculateFileHash h (world st) name \<noteq> lastHash r)"
    by (auto simp: d_def shouldProcess_cases split: option.splits)
next
  have li: "lastEventInfo (snd d) = lastEventInfo st"
    by (simp add: d_def shouldProcess_cases emit_def split: option.splits)
  assume p: "fst d"
  then have fe: "fileEvent h fileName name eventType isDel st = recordEvent h name now st2"
    by (cases "shouldProcess h name (timeNow h (world st)) st")
       (simp add: fileEvent_def st2_def d_def now_def Let_def)
  show "lastEventInfo st2 = lastEventInfo st"
    using li by (simp add: st2_def handleFileEvent_lastEventInfo)
  then show "lastEventInfo (fileEvent h fileName name eventType isDel st) = (lastEventInfo st)(name \<mapsto> key)"
    by (simp add: fe recordEvent_eq key_def)
  from handleFileEvent_no_record [of h fileName name eventType isDel "snd d"]
  obtain tr where t: "trace st2 = trace (snd d) @ tr"
    and k: "\<forall>e\<in>set tr. (\<exists>j r. e = EHandler j r) \<or> (\<exists>j m x. e = EOracle j m x)
            \<or> e = EScheduleReload"
    unfolding st2_def by (elim exE conjE)
  show "\<exists>tr. trace (fileEvent h fileName name eventType isDel st)
                  = trace (snd d) @ tr @ [EHash name, ERecord name key]
              \<and> trace st2 = trace (snd d) @ tr
              \<and> (\<forall>e\<in>set tr. (\<exists>j r. e = EHandler j r) \<or> (\<exists>j m x. e = EOracle j m x)
                     \<or> e = EScheduleReload)"
    by (rule exI [of _ tr]) (use t k in \<open>simp add: fe recordEvent_eq key_def\<close>)
next
  assume n: "\<not> fst d"
  then show "fileEvent h fileName name eventType isDel st = emit (EHash name) st"
    by (auto simp: fileEvent_def d_def now_def shouldProcess_cases Let_def
          split: option.splits if_splits)
  then show "lastEventInfo (fileEvent h fileName name eventType isDel st) = lastEventInfo st"
    by (simp add: emit_def)
qed


theorem content_aware_debounce_witness:
  "lastEventInfo (demoState None) ''web/style.css'' = None
   \<and> fileEvent demoWatch ''style.css'' ''web/style.css'' ''write'' False (demoState None)
       = recordEvent demoWatch ''web/style.css'' 0
           (handleFileEvent demoWatch ''style.css'' ''web/style.css'' ''write'' False
              (demoState None))
   \<and> 60 * Millisecond - 0 > debounceWindow
   \<and> fileEvent demoWatch ''style.css'' ''web/style.css'' ''write'' False
         (demoRecorded (60 * Millisecond) (copy32 [99]))
       = recordEvent demoWatch ''web/style.css'' (60 * Millisecond)
           (handleFileEvent demoWatch ''style.css'' ''web/style.css'' ''write'' False
              (demoRecorded (60 * Millisecond) (copy32 [99])))
   \<and> 50 * Millisecond - 0 \<le> debounceWindow
   \<and> calculateFileHash demoWatch (world (demoRecorded (50 * Millisecond) (copy32 [98])))
         ''web/style.css'' \<noteq> copy32 [98]
   \<and> fileEvent demoWatch ''style.css'' ''web/style.css'' ''write'' False
         (demoRecorded (50 * Millisecond) (copy32 [98]))
       = recordEvent demoWatch ''web/style.css'' (50 * Millisecond)
           (handleFileEvent demoWatch ''style.css'' ''web/style.css'' ''write'' False
              (emit (EHash ''web/style.css'') (demoRecorded (50 * Millisecond) (copy32 [98]))))
   \<and> calculateFileHash demoWatch (world (demoRecorded (50 * Millisecond) (copy32 [99])))
         ''web/style.css'' = copy32 [99]
   \<and> fileEvent demoWatch ''style.css'' ''web/style.css'' ''write'' False
         (demoRecorded (50 * Millisecond) (copy32 [99]))
       = emit (EHash ''web/style.css'') (demoRecorded (50 * Millisecond) (copy32 [99]))"
proof -
  have n: "timeNow demoWatch (world (demoState None)) = 0"
    "\<And>t fp. timeNow demoWatch (world (demoRecorded t fp)) = t"
    "\<And>t fp. lastEventInfo (demoRecorded t fp) ''web/style.css''
        = Some \<lparr>lastTime = 0, lastHash = fp\<rparr>"
    by (simp_all add: demoWatch_def demoState_def demoRecorded_def demoWorld0_def)
  have a: "lastEventInfo (demoState None) ''web/style.css'' = None"
    by (simp add: demoState_def)
  have b: "60 * Millisecond - 0 > debounceWindow" "50 * Millisecond - 0 \<le> debounceWindow"
    by (simp_all add: debounceWindow_def Millisecond_def)
  have c: "calculateFileHash demoWatch (world (demoRecorded (50 * Millisecond) (copy32 [98])))
         ''web/style.css'' \<noteq> copy32 [98]"
    by code_simp
  have d: "calculateFileHash demoWatch (world (demoRecorded (50 * Millisecond) (copy32 [99])))
         ''web/style.css'' = copy32 [99]"
    by code_simp
  note t = content_aware_debounce [of _ "''web/style.css''" demoWatch "''style.css''" "''write''" False]
  show ?thesis
    using t [of "demoState None"] t [of "demoRecorded (60 * Millisecond) (copy32 [99])"]
      t [of "demoRecorded (50 * Millisecond) (copy32 [98])"]
      t [of "demoRecorded (50 * Millisecond) (copy32 [99])"] a b c d
    by (simp add: n)
qed


theorem record_after_dispatch_witness:
  "fst (shouldProcess demoWatch ''web/main.go'' 0 (demoState None))
   \<and> calculateFileHash demoWatch (world (demoState None)) ''web/main.go'' = copy32 [109]
   \<and> lastEventInfo (fileEvent demoWatch ''main.go'' ''web/main.go'' ''write'' False (demoState None))
       = (lastEventInfo (demoState None))
           (''web/main.go'' \<mapsto> \<lparr>lastTime = 0, lastHash = copy32 [111, 103]\<rparr>)
   \<and> \<not> fst (shouldProcess demoWatch ''web/style.css'' (50 * Millisecond)
               (demoRecorded (50 * Millisecond) (copy32 [99])))
   \<and> lastEventInfo (fileEvent demoWatch ''style.css'' ''web/style.css'' ''write'' False
         (demoRecorded (50 * Millisecond) (copy32 [99])))
       = lastEventInfo (demoRecorded (50 * Millisecond) (copy32 [99]))"
proof -
  have n: "timeNow demoWatch (world (demoState None)) = 0"
    "\<And>t fp. timeNow demoWatch (world (demoRecorded t fp)) = t"
    by (simp_all add: demoWatch_def demoState_def demoRecorded_def demoWorld0_def)
  have p: "fst (shouldProcess demoWatch ''web/main.go'' 0 (demoState None))"
    by code_simp
  have pre: "calculateFileHash demoWatch (world (demoState None)) ''web/main.go'' = copy32 [109]"
    by code_simp
  have post: "calculateFileHash demoWatch
      (world (handleFileEvent demoWatch ''main.go'' ''web/main.go'' ''write'' False
         (snd (shouldProcess demoWatch ''web/main.go'' 0 (demoState None))))) ''web/main.go''
      = copy32 [111, 103]"
    by code_simp
  have q: "\<not> fst (shouldProcess demoWatch ''web/style.css'' (50 * Millisecond)
               (demoRecorded (50 * Millisecond) (copy32 [99])))"
    by code_simp
  note r1 = record_after_dispatch [of demoWatch "''web/main.go''" "demoState None" "''main.go''"
        "''write''" False, unfolded n]
  note r2 = record_after_dispatch [of demoWatch "''web/style.css''"
        "demoRecorded (50 * Millisecond) (copy32 [99])" "''style.css''" "''write''" False,
        unfolded n]
  from r1 [THEN conjunct2, THEN conjunct1, rule_format, OF p, THEN conjunct2, THEN conjunct1]
  have rec: "lastEventInfo
        (fileEvent demoWatch ''main.go'' ''web/main.go'' ''write'' False (demoState None))
      = (lastEventInfo (demoState None))
          (''web/main.go'' \<mapsto> \<lparr>lastTime = 0, lastHash = copy32 [111, 103]\<rparr>)"
    by (simp only: post)
  from r2 [THEN conjunct2, THEN conjunct2, rule_format, OF q, THEN conjunct2]
  have skip: "lastEventInfo (fileEvent demoWatch ''style.css'' ''web/style.css'' ''write'' False
         (demoRecorded (50 * Millisecond) (copy32 [99])))
       = lastEventInfo (demoRecorded (50 * Millisecond) (copy32 [99]))" .
  show ?thesis
    by (intro conjI p pre rec q skip)
qed

subsection \<open>Dispatch to the handlers\<close>


text \<open>
  C9. Errors of the ownership oracle. For a \<^verbatim>\<open>.go\<close> event that is not a delete, the oracle
  is asked for every handler that supports \<^verbatim>\<open>.go\<close>, whatever it answered for the handlers
  before; a handler for which the oracle returned an error is not called; a handler the
  oracle confirms as owner is called. The dispatch always returns a state.
\<close>

theorem oracle_error_skips_handler:
  fixes h :: "'w DevWatch" and st :: "'w state"
  assumes "\<not> isDel" and "Ext name = ''.go''"
  shows "\<exists>tr. trace (handleFileEvent h fileName name eventType isDel st)
          = trace st @ tr @ (if \<exists>j. EHandler j None \<in> set tr then [EScheduleReload] else [])
        \<and> (\<forall>k<length (FilesEventHandlers h).
              ''.go'' \<in> set (SupportedExtensions (FilesEventHandlers h ! k)) \<longrightarrow>
              (\<exists>m x. EOracle k m x \<in> set tr))
        \<and> (\<forall>j m e. EOracle j m (Some e) \<in> set tr \<longrightarrow> (\<forall>r. EHandler j r \<notin> set tr))
        \<and> (\<forall>j. EOracle j True None \<in> set tr \<longrightarrow> (\<exists>r. EHandler j r \<in> set tr))"
proof -
  from handleFileEvent_spec [of h fileName name eventType isDel st] obtain tr where
    t: "trace (handleFileEvent h fileName name eventType isDel st)
          = trace st @ tr @ (if \<exists>j. EHandler j None \<in> set tr then [EScheduleReload] else [])"
    and c3: "\<forall>j m x. EOracle j m x \<in> set tr \<longrightarrow>
              j < length (FilesEventHandlers h)
              \<and> Ext name \<in> set (SupportedExtensions (FilesEventHandlers h ! j))
              \<and> \<not> isDel \<and> Ext name = ''.go''
              \<and> (x \<noteq> None \<or> \<not> m \<longrightarrow> (\<forall>r. EHandler j r \<notin> set tr))
              \<and> (m \<and> x = None \<longrightarrow> (\<exists>r. EHandler j r \<in> set tr))"
    and c4: "\<forall>k<length (FilesEventHandlers h).
              Ext name \<in> set (SupportedExtensions (FilesEventHandlers h ! k)) \<longrightarrow>
              (if \<not> isDel \<and> Ext name = ''.go'' then \<exists>m x. EOracle k m x \<in> set tr
               else \<exists>r. EHandler k r \<in> set tr)"
    by (elim exE conjE)
  have a: "\<forall>k<length (FilesEventHandlers h).
              ''.go'' \<in> set (SupportedExtensions (FilesEventHandlers h ! k)) \<longrightarrow>
              (\<exists>m x. EOracle k m x \<in> set tr)"
    using c4 assms by simp
  have b: "\<forall>j m e. EOracle j m (Some e) \<in> set tr \<longrightarrow> (\<forall>r. EHandler j r \<notin> set tr)"
  proof (intro allI impI)
    fix j m e r assume o: "EOracle j m (Some e) \<in> set tr"
    from c3 [rule_format, OF o] show "EHandler j r \<notin> set tr" by simp
  qed
  have c: "\<forall>j. EOracle j True None \<in> set tr \<longrightarrow> (\<exists>r. EHandler j r \<in> set tr)"
  proof (intro allI impI)
    fix j assume o: "EOracle j True None \<in> set tr"
    from c3 [rule_format, OF o] show "\<exists>r. EHandler j r \<in> set tr" by simp
  qed
  show ?thesis
    by (rule exI [of _ tr]) (intro conjI t a b c)
qed


lemma demo_go_write_trace:
  "trace (handleFileEvent demoWatch ''main.go'' ''web/main.go'' ''write'' False (demoState None))
     = [EOracle 0 False (Some ''cannot load packages''), EOracle 1 True None, EHandler 1 None,
        EScheduleReload]"
  by code_simp

lemma demo_handlers:
  "length (FilesEventHandlers demoWatch) = 3"
  "Ext ''web/main.go'' = ''.go''"
  "SupportedExtensions (FilesEventHandlers demoWatch ! 0) = [''.go'']"
  "SupportedExtensions (FilesEventHandlers demoWatch ! Suc 0) = [''.go'']"
  "trace (demoState None) = []"
  by (simp_all add: demoWatch_def Ext_def failingHandler_def compileHandler_def demoState_def)


theorem oracle_error_skips_handler_witness:
  "\<not> False \<and> Ext ''web/main.go'' = ''.go''
   \<and> (\<exists>tr. trace (handleFileEvent demoWatch ''main.go'' ''web/main.go'' ''write'' False
                (demoState None))
            = tr @ [EScheduleReload]
          \<and> EOracle 0 False (Some ''cannot load packages'') \<in> set tr
          \<and> (\<forall>r. EHandler 0 r \<notin> set tr)
          \<and> EOracle 1 True None \<in> set tr \<and> EHandler 1 None \<in> set tr)"
proof -
  let ?T = "trace (handleFileEvent demoWatch ''main.go'' ''web/main.go'' ''write'' False
              (demoState None))"
  have h1: "\<not> False" by simp
  have h2: "Ext ''web/main.go'' = ''.go''" by (simp add: demo_handlers)
  from oracle_error_skips_handler [OF h1 h2, of demoWatch "''main.go''" "''write''"
      "demoState None"]
  obtain tr where
    t: "?T = trace (demoState None) @ tr
               @ (if \<exists>j. EHandler j None \<in> set tr then [EScheduleReload] else [])"
    and a: "\<forall>k<length (FilesEventHandlers demoWatch).
              ''.go'' \<in> set (SupportedExtensions (FilesEventHandlers demoWatch ! k)) \<longrightarrow>
              (\<exists>m x. EOracle k m x \<in> set tr)"
    and b: "\<forall>j m e. EOracle j m (Some e) \<in> set tr \<longrightarrow> (\<forall>r. EHandler j r \<notin> set tr)"
    and c: "\<forall>j. EOracle j True None \<in> set tr \<longrightarrow> (\<exists>r. EHandler j r \<in> set tr)"
    by (elim exE conjE)
  from t have sub: "set tr \<subseteq> set ?T" by auto
  from a [rule_format, of 0] obtain m0 x0 where o0: "EOracle 0 m0 x0 \<in> set tr"
    by (auto simp: demo_handlers)
  with sub have o0': "EOracle 0 False (Some ''cannot load packages'') \<in> set tr"
    by (auto simp: demo_go_write_trace)
  from b [rule_format, OF o0'] have n0: "\<forall>r. EHandler 0 r \<notin> set tr" by simp
  from a [rule_format, of 1] obtain m1 x1 where o1: "EOracle 1 m1 x1 \<in> set tr"
    by (auto simp: demo_handlers)
  with sub have o1': "EOracle 1 True None \<in> set tr"
    by (auto simp: demo_go_write_trace)
  from c [rule_format, OF o1'] obtain r where r: "EHandler 1 r \<in> set tr" by blast
  with sub have "r = None" by (auto simp: demo_go_write_trace)
  with r have h1': "EHandler 1 None \<in> set tr" by simp
  then have "?T = tr @ [EScheduleReload]" using t by (auto simp: demo_handlers)
  with o0' n0 o1' h1' have "\<exists>tr. ?T = tr @ [EScheduleReload]
          \<and> EOracle 0 False (Some ''cannot load packages'') \<in> set tr
          \<and> (\<forall>r. EHandler 0 r \<notin> set tr)
          \<and> EOracle 1 True None \<in> set tr \<and> EHandler 1 None \<in> set tr"
    by blast
  with h1 h2 show ?thesis by blast
qed

subsection \<open>Delete events\<close>

lemma fileEvent_trace:
  "\<exists>tr. trace (fileEvent h fileName name eventType isDel st) = trace st @ tr
     \<and> (\<forall>p. EStat p \<notin> set tr \<and> EContain p \<notin> set tr)"
proof -
  obtain process st1 where d: "shouldProcess h name (timeNow h (world st)) st = (process, st1)"
    by (metis prod.exhaust)
  then have t1: "trace st1 = trace st \<or> trace st1 = trace st @ [EHash name]"
    by (auto simp: shouldProcess_cases emit_def split: option.splits if_splits)
  show ?thesis
  proof (cases process)
    case False
    with d have "fileEvent h fileName name eventType isDel st = st1"
      by (simp add: fileEvent_def Let_def)
    with t1 show ?thesis by auto
  next
    case True
    with d have fe: "fileEvent h fileName name eventType isDel st
        = recordEvent h name (timeNow h (world st))
            (handleFileEvent h fileName name eventType isDel st1)"
      by (simp add: fileEvent_def Let_def)
    from handleFileEvent_no_record [of h fileName name eventType isDel st1]
    obtain tr where t2: "trace (handleFileEvent h fileName name eventType isDel st1) = trace st1 @ tr"
      and k: "\<forall>e\<in>set tr. (\<exists>j r. e = EHandler j r) \<or> (\<exists>j m x. e = EOracle j m x)
            \<or> e = EScheduleReload"
      by (elim exE conjE)
    have nk: "\<And>p. EStat p \<notin> set tr \<and> EContain p \<notin> set tr"
    proof -
      fix p
      have "EStat p \<notin> set tr"
      proof
        assume "EStat p \<in> set tr"
        from bspec [OF k this] show False by auto
      qed
      moreover have "EContain p \<notin> set tr"
      proof
        assume "EContain p \<in> set tr"
        from bspec [OF k this] show False by auto
      qed
      ultimately show "EStat p \<notin> set tr \<and> EContain p \<notin> set tr" ..
    qed
    from t1 show ?thesis
    proof
      assume "trace st1 = trace st"
      with fe t2 nk show ?thesis by (simp add: recordEvent_eq)
    next
      assume "trace st1 = trace st @ [EHash name]"
      with fe t2 nk show ?thesis by (simp add: recordEvent_eq)
    qed
  qed
qed

lemma ToLower_REMOVE: "ToLower ''REMOVE'' = ''remove''"
  by code_simp

lemma ToLower_WRITE: "ToLower ''WRITE'' = ''write''"
  by code_simp

lemma demo_delete_under_git:
  "trace (watchEvent demoWatch \<lparr>Name = ''.git/x.css'', Op = ''REMOVE''\<rparr> (demoState None))
     = [EHandler 2 None, EScheduleReload, EHash ''.git/x.css'',
        ERecord ''.git/x.css'' \<lparr>lastTime = 0, lastHash = zeroHash\<rparr>]"
  by code_simp

lemma demo_contain_git: "Contain demoWatch ''.git/x.css''" "Contain demoWatch ''.git/config''"
  by (simp_all add: demoWatch_def)

text \<open>
  C10. Delete events bypass the checks. For an event whose kind, in lower case, is
  \<^verbatim>\<open>remove\<close> or \<^verbatim>\<open>delete\<close>, the loop goes from the file name straight to the debounce and
  the dispatch: the result does not depend on \<^verbatim>\<open>os.Stat\<close> or on \<open>Contain\<close>, and the trace
  of the event has no stat and no query of \<open>Contain\<close>. For every other kind a failing
  stat discards the event, and so does an excluded path. A delete event for a path under
  an excluded directory can therefore schedule a reload, as it does in the concrete
  project for \<^verbatim>\<open>.git/x.css\<close>.
\<close>

theorem delete_event_bypass:
  fixes h :: "'w DevWatch" and st :: "'w state" and ev :: Event
  defines "eventType \<equiv> ToLower (Op ev)"
  defines "isDeleteEvent \<equiv> (eventType = ''remove'' \<or> eventType = ''delete'')"
  shows
   "(isDeleteEvent \<longrightarrow>
       watchEvent h ev st =
         (case GetFileName h (Name ev) of
            (fileName, Some e) \<Rightarrow> st
          | (fileName, None) \<Rightarrow> fileEvent h fileName (Name ev) eventType True st)
     \<and> (\<exists>tr. trace (watchEvent h ev st) = trace st @ tr
            \<and> (\<forall>p. EStat p \<notin> set tr \<and> EContain p \<notin> set tr)))
  \<and> (\<not> isDeleteEvent \<longrightarrow>
       (\<forall>e. osStat h (world st) (Name ev) = Inl e \<longrightarrow>
          watchEvent h ev st = emit (EStat (Name ev)) st)
     \<and> (\<forall>info. osStat h (world st) (Name ev) = Inr info \<and> Contain h (Name ev) \<longrightarrow>
          watchEvent h ev st = emit (EContain (Name ev)) (emit (EStat (Name ev)) st)))
  \<and> (\<exists>ev'. (ToLower (Op ev') = ''remove'' \<or> ToLower (Op ev') = ''delete'')
        \<and> Contain demoWatch (Name ev')
        \<and> EScheduleReload \<in> set (trace (watchEvent demoWatch ev' (demoState None))))"
proof (intro conjI impI)
  assume del: isDeleteEvent
  then show eq: "watchEvent h ev st =
         (case GetFileName h (Name ev) of
            (fileName, Some e) \<Rightarrow> st
          | (fileName, None) \<Rightarrow> fileEvent h fileName (Name ev) eventType True st)"
    unfolding isDeleteEvent_def eventType_def by (auto simp: watchEvent_def Let_def)
  show "\<exists>tr. trace (watchEvent h ev st) = trace st @ tr
            \<and> (\<forall>p. EStat p \<notin> set tr \<and> EContain p \<notin> set tr)"
  proof (cases "GetFileName h (Name ev)")
    case (Pair fileName err)
    show ?thesis
    proof (cases err)
      case None
      with Pair eq fileEvent_trace [of h fileName "Name ev" eventType True st]
      show ?thesis by simp
    next
      case (Some e)
      with Pair eq show ?thesis by simp
    qed
  qed
next
  assume nd: "\<not> isDeleteEvent"
  then show "\<forall>e. osStat h (world st) (Name ev) = Inl e \<longrightarrow>
          watchEvent h ev st = emit (EStat (Name ev)) st"
    by (simp add: watchEvent_def isDeleteEvent_def eventType_def Let_def)
  from nd show "\<forall>info. osStat h (world st) (Name ev) = Inr info \<and> Contain h (Name ev) \<longrightarrow>
          watchEvent h ev st = emit (EContain (Name ev)) (emit (EStat (Name ev)) st)"
    by (simp add: watchEvent_def isDeleteEvent_def eventType_def Let_def)
next
  show "\<exists>ev'. (ToLower (Op ev') = ''remove'' \<or> ToLower (Op ev') = ''delete'')
        \<and> Contain demoWatch (Name ev')
        \<and> EScheduleReload \<in> set (trace (watchEvent demoWatch ev' (demoState None)))"
    by (rule exI [of _ "\<lparr>Name = ''.git/x.css'', Op = ''REMOVE''\<rparr>"])
       (simp add: ToLower_REMOVE demo_delete_under_git demo_contain_git)
qed

theorem delete_event_bypass_witness:
  "(ToLower (Op \<lparr>Name = ''.git/x.css'', Op = ''REMOVE''\<rparr>) = ''remove''
      \<or> ToLower (Op \<lparr>Name = ''.git/x.css'', Op = ''REMOVE''\<rparr>) = ''delete'')
   \<and> Contain demoWatch ''.git/x.css''
   \<and> watchEvent demoWatch \<lparr>Name = ''.git/x.css'', Op = ''REMOVE''\<rparr> (demoState None)
       = fileEvent demoWatch ''.git/x.css'' ''.git/x.css'' ''remove'' True (demoState None)
   \<and> trace (watchEvent demoWatch \<lparr>Name = ''.git/x.css'', Op = ''REMOVE''\<rparr> (demoState None))
       = [EHandler 2 None, EScheduleReload, EHash ''.git/x.css'',
          ERecord ''.git/x.css'' \<lparr>lastTime = 0, lastHash = zeroHash\<rparr>]
   \<and> osStat demoWatch (world (demoState None)) ''.git/x.css''
       = Inl ''stat: no such file or directory''
   \<and> watchEvent demoWatch \<lparr>Name = ''.git/x.css'', Op = ''WRITE''\<rparr> (demoState None)
       = emit (EStat ''.git/x.css'') (demoState None)
   \<and> osStat demoWatch (world (demoState None)) ''.git/config'' = Inr \<lparr>IsDir = False\<rparr>
   \<and> Contain demoWatch ''.git/config''
   \<and> watchEvent demoWatch \<lparr>Name = ''.git/config'', Op = ''WRITE''\<rparr> (demoState None)
       = emit (EContain ''.git/config'') (emit (EStat ''.git/config'') (demoState None))"
proof -
  note c = demo_contain_git
  have g: "GetFileName demoWatch ''.git/x.css'' = (''.git/x.css'', None)"
    by (simp add: demoWatch_def)
  have s1: "osStat demoWatch (world (demoState None)) ''.git/x.css''
       = Inl ''stat: no such file or directory''"
    by (simp add: demoWatch_def demoState_def demoWorld0_def demoStat_def)
  have s2: "osStat demoWatch (world (demoState None)) ''.git/config'' = Inr \<lparr>IsDir = False\<rparr>"
    by (simp add: demoWatch_def demoState_def demoWorld0_def demoStat_def)
  have r: "ToLower (Op \<lparr>Name = ''.git/x.css'', Op = ''REMOVE''\<rparr>) = ''remove''"
    by (simp add: ToLower_REMOVE)
  have w: "\<not> (ToLower (Op \<lparr>Name = ''.git/x.css'', Op = ''WRITE''\<rparr>) = ''remove''
             \<or> ToLower (Op \<lparr>Name = ''.git/x.css'', Op = ''WRITE''\<rparr>) = ''delete'')"
    "\<not> (ToLower (Op \<lparr>Name = ''.git/config'', Op = ''WRITE''\<rparr>) = ''remove''
             \<or> ToLower (Op \<lparr>Name = ''.git/config'', Op = ''WRITE''\<rparr>) = ''delete'')"
    by (simp_all add: ToLower_WRITE)
  note d = delete_event_bypass [of "\<lparr>Name = ''.git/x.css'', Op = ''REMOVE''\<rparr>" demoWatch
      "demoState None", THEN conjunct1, rule_format, OF disjI1 [OF r], THEN conjunct1]
  note w1 = delete_event_bypass [of "\<lparr>Name = ''.git/x.css'', Op = ''WRITE''\<rparr>" demoWatch
      "demoState None", THEN conjunct2, THEN conjunct1, rule_format, OF w(1), THEN conjunct1]
  note w2 = delete_event_bypass [of "\<lparr>Name = ''.git/config'', Op = ''WRITE''\<rparr>" demoWatch
      "demoState None", THEN conjunct2, THEN conjunct1, rule_format, OF w(2), THEN conjunct2]
  from d g have e1: "watchEvent demoWatch \<lparr>Name = ''.git/x.css'', Op = ''REMOVE''\<rparr> (demoState None)
       = fileEvent demoWatch ''.git/x.css'' ''.git/x.css'' ''remove'' True (demoState None)"
    by (simp add: ToLower_REMOVE)
  from w1 s1 have e2: "watchEvent demoWatch \<lparr>Name = ''.git/x.css'', Op = ''WRITE''\<rparr> (demoState None)
       = emit (EStat ''.git/x.css'') (demoState None)"
    by simp
  from w2 s2 c have e3: "watchEvent demoWatch \<lparr>Name = ''.git/config'', Op = ''WRITE''\<rparr> (demoState None)
       = emit (EContain ''.git/config'') (emit (EStat ''.git/config'') (demoState None))"
    by simp
  show ?thesis
    using c e1 e2 e3 s1 s2 demo_delete_under_git by (simp add: ToLower_REMOVE)
qed

subsection \<open>Unreadable files\<close>

text \<open>
  C6. Unreadable files and the zero fingerprint. The claim is that an event within the
  window on a file that is unreadable is always processed. In the concrete project the file
  \<^verbatim>\<open>web/old.css\<close> does not exist: a first \<^verbatim>\<open>REMOVE\<close> event at time 0 is processed and
  recorded with the zero fingerprint, and a second \<^verbatim>\<open>REMOVE\<close> event 10 ms later computes
  the zero fingerprint again, finds it equal to the stored one and is skipped.
\<close>

theorem unreadable_duplicate_skipped:
  "(let ev = \<lparr>Name = ''web/old.css'', Op = ''REMOVE''\<rparr>;
        st1 = watchEvent demoWatch ev (demoState None);
        st2 = st1\<lparr>world := (world st1)\<lparr>clock := 10 * Millisecond\<rparr>\<rparr>
    in readFile demoWatch (world st2) ''web/old.css'' = Inl ''open: no such file or directory''
       \<and> lastEventInfo st2 ''web/old.css'' = Some \<lparr>lastTime = 0, lastHash = zeroHash\<rparr>
       \<and> timeNow demoWatch (world st2) - 0 \<le> debounceWindow
       \<and> calculateFileHash demoWatch (world st2) ''web/old.css'' = zeroHash
       \<and> fst (shouldProcess demoWatch ''web/old.css'' (timeNow demoWatch (world st2)) st2) = False
       \<and> trace (watchEvent demoWatch ev st2) = trace st2 @ [EHash ''web/old.css''])"
  by code_simp

subsection \<open>Registration of new directories\<close>

lemma registered_append: "registered (a @ b) = registered a @ registered b"
  by (induction a rule: registered.induct) simp_all

lemma registered_set: "p \<in> set (registered es) \<longleftrightarrow> EWatcherAdd p None \<in> set es"
  by (induction es rule: registered.induct) auto

lemma walkFn_spec:
  assumes "walkFn h root v (reg, st) = (reg1, st1)"
  shows "\<exists>es. trace st1 = trace st @ es
     \<and> reg1 = rev (registered es) @ reg
     \<and> (distinct reg \<longrightarrow> distinct reg1)
     \<and> (\<forall>e\<in>set es. (\<exists>p. e = EContain p) \<or> (\<exists>p x. e = EWatcherAdd p x))
     \<and> (\<forall>p x. EWatcherAdd p x \<in> set es \<longrightarrow>
           p \<noteq> root \<and> \<not> Contain h p \<and> (\<exists>fi. v = (p, Some fi, None) \<and> IsDir fi))
     \<and> (\<forall>p fi. v = (p, Some fi, None) \<and> IsDir fi \<and> p \<noteq> root \<and> \<not> Contain h p \<longrightarrow>
           p \<in> set reg \<or> (\<exists>x. EWatcherAdd p x \<in> set es))"
proof -
  obtain path info err where v: "v = (path, info, err)" by (cases v) auto
  show ?thesis
  proof (cases "err = None \<and> (\<exists>fi. info = Some fi \<and> IsDir fi \<and> path \<noteq> root)")
    case False
    with assms v have "reg1 = reg" "st1 = st"
      by (auto simp: walkFn_def split: option.splits if_splits)
    with False v show ?thesis by (intro exI [of _ "[]"]) auto
  next
    case True
    then obtain fi where i: "err = None" "info = Some fi" "IsDir fi" "path \<noteq> root" by blast
    show ?thesis
    proof (cases "Contain h path")
      case True
      with assms v i have "reg1 = reg" "st1 = emit (EContain path) st"
        by (auto simp: walkFn_def Let_def)
      with True v i show ?thesis by (intro exI [of _ "[EContain path]"]) (auto simp: emit_def)
    next
      case nc: False
      show ?thesis
      proof (cases "path \<in> set reg")
        case True
        with assms v i nc have "reg1 = reg" "st1 = emit (EContain path) st"
          by (auto simp: walkFn_def Let_def addDirectoryToWatcher_def)
        with True v i show ?thesis by (intro exI [of _ "[EContain path]"]) (auto simp: emit_def)
      next
        case nr: False
        obtain e w' where a: "watcherAdd h path (world (emit (EContain path) st)) = (e, w')"
          by (metis prod.exhaust)
        show ?thesis
        proof (cases e)
          case None
          with assms v i nc nr a have "reg1 = path # reg"
            "trace st1 = trace st @ [EContain path, EWatcherAdd path None]"
            by (auto simp: walkFn_def Let_def addDirectoryToWatcher_def emit_def)
          with nr nc v i show ?thesis
            by (intro exI [of _ "[EContain path, EWatcherAdd path None]"]) auto
        next
          case (Some x)
          with assms v i nc nr a have "reg1 = reg"
            "trace st1 = trace st @ [EContain path, EWatcherAdd path (Some x)]"
            by (auto simp: walkFn_def Let_def addDirectoryToWatcher_def emit_def)
          with nr nc v i show ?thesis
            by (intro exI [of _ "[EContain path, EWatcherAdd path (Some x)]"]) auto
        qed
      qed
    qed
  qed
qed


lemma walkAll_spec:
  assumes "walkAll h root vs (reg, st) = (reg', st')"
  shows "\<exists>tr. trace st' = trace st @ tr
     \<and> reg' = rev (registered tr) @ reg
     \<and> (distinct reg \<longrightarrow> distinct reg')
     \<and> (\<forall>e\<in>set tr. (\<exists>p. e = EContain p) \<or> (\<exists>p x. e = EWatcherAdd p x))
     \<and> (\<forall>p x. EWatcherAdd p x \<in> set tr \<longrightarrow>
           p \<noteq> root \<and> \<not> Contain h p \<and> (\<exists>fi. (p, Some fi, None) \<in> set vs \<and> IsDir fi))
     \<and> (\<forall>p fi. (p, Some fi, None) \<in> set vs \<and> IsDir fi \<and> p \<noteq> root \<and> \<not> Contain h p \<longrightarrow>
           p \<in> set reg \<or> (\<exists>x. EWatcherAdd p x \<in> set tr))"
  using assms
proof (induction vs arbitrary: reg st)
  case Nil
  then show ?case by simp
next
  case (Cons v vs)
  obtain reg1 st1 where step: "walkFn h root v (reg, st) = (reg1, st1)"
    by (metis prod.exhaust)
  with Cons.prems have rest: "walkAll h root vs (reg1, st1) = (reg', st')" by simp
  from walkFn_spec [OF step] obtain es where
    t1: "trace st1 = trace st @ es"
    and r1: "reg1 = rev (registered es) @ reg"
    and d1: "distinct reg \<longrightarrow> distinct reg1"
    and k1: "\<forall>e\<in>set es. (\<exists>p. e = EContain p) \<or> (\<exists>p x. e = EWatcherAdd p x)"
    and o1: "\<forall>p x. EWatcherAdd p x \<in> set es \<longrightarrow>
           p \<noteq> root \<and> \<not> Contain h p \<and> (\<exists>fi. v = (p, Some fi, None) \<and> IsDir fi)"
    and c1: "\<forall>p fi. v = (p, Some fi, None) \<and> IsDir fi \<and> p \<noteq> root \<and> \<not> Contain h p \<longrightarrow>
           p \<in> set reg \<or> (\<exists>x. EWatcherAdd p x \<in> set es)"
    by (elim exE conjE)
  from Cons.IH [OF rest] obtain tr where
    t2: "trace st' = trace st1 @ tr"
    and r2: "reg' = rev (registered tr) @ reg1"
    and d2: "distinct reg1 \<longrightarrow> distinct reg'"
    and k2: "\<forall>e\<in>set tr. (\<exists>p. e = EContain p) \<or> (\<exists>p x. e = EWatcherAdd p x)"
    and o2: "\<forall>p x. EWatcherAdd p x \<in> set tr \<longrightarrow>
           p \<noteq> root \<and> \<not> Contain h p \<and> (\<exists>fi. (p, Some fi, None) \<in> set vs \<and> IsDir fi)"
    and c2: "\<forall>p fi. (p, Some fi, None) \<in> set vs \<and> IsDir fi \<and> p \<noteq> root \<and> \<not> Contain h p \<longrightarrow>
           p \<in> set reg1 \<or> (\<exists>x. EWatcherAdd p x \<in> set tr)"
    by (elim exE conjE)
  have a0: "trace st' = trace st @ (es @ tr)" using t1 t2 by simp
  have a1: "reg' = rev (registered (es @ tr)) @ reg"
    using r1 r2 by (simp add: registered_append)
  have a2: "distinct reg \<longrightarrow> distinct reg'" using d1 d2 by blast
  have a3: "\<forall>e\<in>set (es @ tr). (\<exists>p. e = EContain p) \<or> (\<exists>p x. e = EWatcherAdd p x)"
  proof
    fix e assume "e \<in> set (es @ tr)"
    then consider "e \<in> set es" | "e \<in> set tr" by auto
    then show "(\<exists>p. e = EContain p) \<or> (\<exists>p x. e = EWatcherAdd p x)"
    proof cases
      case 1
      from bspec [OF k1 1] show ?thesis .
    next
      case 2
      from bspec [OF k2 2] show ?thesis .
    qed
  qed
  have a4: "\<forall>p x. EWatcherAdd p x \<in> set (es @ tr) \<longrightarrow>
           p \<noteq> root \<and> \<not> Contain h p \<and> (\<exists>fi. (p, Some fi, None) \<in> set (v # vs) \<and> IsDir fi)"
  proof (intro allI impI)
    fix p x assume "EWatcherAdd p x \<in> set (es @ tr)"
    then consider "EWatcherAdd p x \<in> set es" | "EWatcherAdd p x \<in> set tr" by auto
    then show "p \<noteq> root \<and> \<not> Contain h p \<and> (\<exists>fi. (p, Some fi, None) \<in> set (v # vs) \<and> IsDir fi)"
    proof cases
      case 1
      from o1 [rule_format, OF 1] show ?thesis by auto
    next
      case 2
      from o2 [rule_format, OF 2] show ?thesis by auto
    qed
  qed
  have a5: "\<forall>p fi. (p, Some fi, None) \<in> set (v # vs) \<and> IsDir fi \<and> p \<noteq> root \<and> \<not> Contain h p \<longrightarrow>
           p \<in> set reg \<or> (\<exists>x. EWatcherAdd p x \<in> set (es @ tr))"
  proof (intro allI impI)
    fix p fi
    assume a: "(p, Some fi, None) \<in> set (v # vs) \<and> IsDir fi \<and> p \<noteq> root \<and> \<not> Contain h p"
    then consider "v = (p, Some fi, None)" | "(p, Some fi, None) \<in> set vs" by auto
    then show "p \<in> set reg \<or> (\<exists>x. EWatcherAdd p x \<in> set (es @ tr))"
    proof cases
      case 1
      with a c1 have "p \<in> set reg \<or> (\<exists>x. EWatcherAdd p x \<in> set es)" by blast
      then show ?thesis by auto
    next
      case 2
      with a c2 have "p \<in> set reg1 \<or> (\<exists>x. EWatcherAdd p x \<in> set tr)" by blast
      then show ?thesis
      proof
        assume "p \<in> set reg1"
        with r1 have "p \<in> set reg \<or> EWatcherAdd p None \<in> set es"
          by (auto simp: registered_set)
        then show ?thesis by auto
      next
        assume "\<exists>x. EWatcherAdd p x \<in> set tr"
        then show ?thesis by auto
      qed
    qed
  qed
  show ?case
    by (rule exI [of _ "es @ tr"]) (intro conjI a0 a1 a2 a3 a4 a5)
qed


text \<open>
  C8. Recursive directory registration. On a \<^verbatim>\<open>create\<close> event for a directory, after the
  folder observer has been told (\<open>st1\<close>), the new directory is registered; when that
  succeeds, the walk \<open>vs\<close> of its subtree follows, and the trace \<open>tr\<close> of the walk
  consists of queries of \<open>Contain\<close> and registrations only. Every directory the walk reports
  without error that is not the root and not excluded is handed to the notification source;
  nothing else is; no path is registered twice (the root included), which is what the
  registration set of the walk ensures; and an entry reported with an error changes
  nothing, the walk going on with the entries after it.
\<close>

theorem recursive_directory_registration:
  fixes h :: "'w DevWatch" and st :: "'w state" and fileName eventName :: string
  defines "st1 \<equiv>
    (case FolderEvents h of
       None \<Rightarrow> st
     | Some newFolderEvent \<Rightarrow>
         emit (EFolderEvent eventName (fst (newFolderEvent fileName eventName ''create'' (world st))))
           (st\<lparr>world := snd (newFolderEvent fileName eventName ''create'' (world st))\<rparr>))"
  defines "added \<equiv> watcherAdd h eventName (world st1)"
  defines "vs \<equiv> walk eventName (walkTree h (snd added) eventName)"
  assumes ok: "fst added = None"
  shows "\<exists>tr. trace (handleDirectoryEvent h fileName eventName ''create'' st)
            = trace st1 @ [EWatcherAdd eventName None] @ tr
     \<and> (\<forall>e\<in>set tr. (\<exists>p. e = EContain p) \<or> (\<exists>p x. e = EWatcherAdd p x))
     \<and> (\<forall>p fi. (p, Some fi, None) \<in> set vs \<and> IsDir fi \<and> p \<noteq> eventName \<and> \<not> Contain h p \<longrightarrow>
           (\<exists>x. EWatcherAdd p x \<in> set tr))
     \<and> (\<forall>p x. EWatcherAdd p x \<in> set tr \<longrightarrow>
           p \<noteq> eventName \<and> \<not> Contain h p \<and> (\<exists>fi. (p, Some fi, None) \<in> set vs \<and> IsDir fi))
     \<and> distinct (eventName # registered tr)
     \<and> (\<forall>p info e acc. walkFn h eventName (p, info, Some e) acc = acc)"
proof -
  define st2 where "st2 = emit (EWatcherAdd eventName None) (st1\<lparr>world := snd added\<rparr>)"
  have first: "addDirectoryToWatcher h eventName [] st1 = (None, [eventName], st2)"
    using ok by (cases added) (simp add: addDirectoryToWatcher_def added_def st2_def Let_def)
  have fe: "(case FolderEvents h of
               None \<Rightarrow> st
             | Some newFolderEvent \<Rightarrow>
                 (let (err, w') = newFolderEvent fileName eventName ''create'' (world st)
                  in emit (EFolderEvent eventName err) (st\<lparr>world := w'\<rparr>))) = st1"
    by (simp add: st1_def split: option.splits prod.splits)
  obtain reg' st' where w: "walkAll h eventName vs ([eventName], st2) = (reg', st')"
    by (metis prod.exhaust)
  have w2: "world st2 = snd added" "trace st2 = trace st1 @ [EWatcherAdd eventName None]"
    by (simp_all add: st2_def emit_def)
  have res: "handleDirectoryEvent h fileName eventName ''create'' st = st'"
    using first w by (simp add: handleDirectoryEvent_def fe vs_def w2 Let_def)
  from walkAll_spec [OF w] obtain tr where
    t: "trace st' = trace st2 @ tr"
    and r: "reg' = rev (registered tr) @ [eventName]"
    and d: "distinct [eventName] \<longrightarrow> distinct reg'"
    and k: "\<forall>e\<in>set tr. (\<exists>p. e = EContain p) \<or> (\<exists>p x. e = EWatcherAdd p x)"
    and o: "\<forall>p x. EWatcherAdd p x \<in> set tr \<longrightarrow>
           p \<noteq> eventName \<and> \<not> Contain h p \<and> (\<exists>fi. (p, Some fi, None) \<in> set vs \<and> IsDir fi)"
    and c: "\<forall>p fi. (p, Some fi, None) \<in> set vs \<and> IsDir fi \<and> p \<noteq> eventName \<and> \<not> Contain h p \<longrightarrow>
           p \<in> set [eventName] \<or> (\<exists>x. EWatcherAdd p x \<in> set tr)"
    by (elim exE conjE)
  have a0: "trace (handleDirectoryEvent h fileName eventName ''create'' st)
            = trace st1 @ [EWatcherAdd eventName None] @ tr"
    using res t w2 by simp
  have a2: "\<forall>p fi. (p, Some fi, None) \<in> set vs \<and> IsDir fi \<and> p \<noteq> eventName \<and> \<not> Contain h p \<longrightarrow>
           (\<exists>x. EWatcherAdd p x \<in> set tr)"
    using c by auto
  have a4: "distinct (eventName # registered tr)"
    using d r by auto
  have a5: "\<forall>p info e acc. walkFn h eventName (p, info, Some e) acc = acc"
    by (simp add: walkFn_def split: prod.splits)
  show ?thesis
    by (rule exI [of _ tr]) (intro conjI a0 k a2 o a4 a5)
qed


lemma demo_create_trace:
  "trace (handleDirectoryEvent demoWatch ''new'' ''new'' ''create'' (demoState None))
     = [EWatcherAdd ''new'' None, EContain ''new/.git'', EContain ''new/.git/objects'',
        EContain ''new/a'', EWatcherAdd ''new/a'' None, EContain ''new/a/b'',
        EWatcherAdd ''new/a/b'' None, EContain ''new/z'', EWatcherAdd ''new/z'' None]"
  by code_simp

lemma demo_create_facts:
  "FolderEvents demoWatch = None"
  "fst (watcherAdd demoWatch ''new'' (world (demoState None))) = None"
  "walk ''new'' (walkTree demoWatch (snd (watcherAdd demoWatch ''new'' (world (demoState None)))) ''new'')
     = [(''new'', Some \<lparr>IsDir = True\<rparr>, None),
        (''new/.git'', Some \<lparr>IsDir = True\<rparr>, None),
        (''new/.git/objects'', Some \<lparr>IsDir = True\<rparr>, None),
        (''new/a'', Some \<lparr>IsDir = True\<rparr>, None),
        (''new/a/b'', Some \<lparr>IsDir = True\<rparr>, None),
        (''new/broken'', Some \<lparr>IsDir = True\<rparr>, Some ''readdir''),
        (''new/f.go'', Some \<lparr>IsDir = False\<rparr>, None),
        (''new/gone'', None, Some ''lstat''),
        (''new/z'', Some \<lparr>IsDir = True\<rparr>, None)]"
  "\<not> Contain demoWatch ''new/z''"
  "trace (demoState None) = []"
  by (simp_all add: demoWatch_def demoTree_def demoState_def)

theorem recursive_directory_registration_witness:
  "fst (watcherAdd demoWatch ''new'' (world (demoState None))) = None
   \<and> (''new/z'', Some \<lparr>IsDir = True\<rparr>, None)
        \<in> set (walk ''new'' (walkTree demoWatch
              (snd (watcherAdd demoWatch ''new'' (world (demoState None)))) ''new''))
   \<and> \<not> Contain demoWatch ''new/z''
   \<and> (\<exists>tr. trace (handleDirectoryEvent demoWatch ''new'' ''new'' ''create'' (demoState None))
             = [EWatcherAdd ''new'' None] @ tr
           \<and> EWatcherAdd ''new/z'' None \<in> set tr
           \<and> distinct (''new'' # registered tr))
   \<and> registered (trace (handleDirectoryEvent demoWatch ''new'' ''new'' ''create''
         (demoState None)))
       = [''new'', ''new/a'', ''new/a/b'', ''new/z'']"
proof -
  let ?T = "trace (handleDirectoryEvent demoWatch ''new'' ''new'' ''create'' (demoState None))"
  have ok: "fst (watcherAdd demoWatch ''new''
      (world (case FolderEvents demoWatch of
                None \<Rightarrow> demoState None
              | Some newFolderEvent \<Rightarrow>
                  emit (EFolderEvent ''new''
                        (fst (newFolderEvent ''new'' ''new'' ''create'' (world (demoState None)))))
                    ((demoState None)\<lparr>world :=
                        snd (newFolderEvent ''new'' ''new'' ''create'' (world (demoState None)))\<rparr>))))
     = None"
    by (simp add: demo_create_facts)
  from recursive_directory_registration [OF ok, unfolded demo_create_facts(1) option.case
      demo_create_facts(5) append_Nil]
  obtain tr where
    t: "?T = [EWatcherAdd ''new'' None] @ tr"
    and c: "\<forall>p fi. (p, Some fi, None)
              \<in> set (walk ''new'' (walkTree demoWatch
                    (snd (watcherAdd demoWatch ''new'' (world (demoState None)))) ''new''))
             \<and> IsDir fi \<and> p \<noteq> ''new'' \<and> \<not> Contain demoWatch p \<longrightarrow>
           (\<exists>x. EWatcherAdd p x \<in> set tr)"
    and d: "distinct (''new'' # registered tr)"
    by (elim exE conjE)
  have z: "(''new/z'', Some \<lparr>IsDir = True\<rparr>, None)
        \<in> set (walk ''new'' (walkTree demoWatch
              (snd (watcherAdd demoWatch ''new'' (world (demoState None)))) ''new''))"
    by (simp add: demo_create_facts(3))
  from c [rule_format, of "''new/z''" "\<lparr>IsDir = True\<rparr>"] z
  obtain x where x: "EWatcherAdd ''new/z'' x \<in> set tr"
    by (auto simp: demo_create_facts(4))
  from t have "set tr \<subseteq> set ?T" by auto
  with x have "x = None" by (auto simp: demo_create_trace)
  with x t d have main: "\<exists>tr. ?T = [EWatcherAdd ''new'' None] @ tr
           \<and> EWatcherAdd ''new/z'' None \<in> set tr
           \<and> distinct (''new'' # registered tr)"
    by blast
  have reg: "registered ?T = [''new'', ''new/a'', ''new/a/b'', ''new/z'']"
    by (simp add: demo_create_trace)
  show ?thesis
    by (intro conjI demo_create_facts(2) z demo_create_facts(4) main reg)
qed

subsection \<open>The exclusion predicate\<close>








subsection \<open>Coalescing of reloads\<close>















subsection \<open>Shutdown of the reload timer\<close>

text \<open>
  C5. Shutdown draining. The claim is that on the exit signal the notification source is
  closed and the reload timer shut down so that a running timer is stopped without a
  reload, an idle timer gives no reload, and a timer that has expired with its value not
  yet received is drained with the reload action invoked exactly once. The first two hold.
  The third does not: \<^verbatim>\<open>Stop\<close> returns true for a timer whose value is pending and discards
  the value, so the branch of \<^verbatim>\<open>stopReload\<close> that receives from \<^verbatim>\<open>C\<close> and triggers the reload
  (lines 254-265) is reached only with an empty \<^verbatim>\<open>C\<close>. Whatever the state of the timer, the
  exit branch closes the notification source, leaves the timer stopped with nothing
  pending, and invokes no reload; in the concrete project the pending reload is lost.
\<close>

theorem exitSignal_drops_pending_reload:
  "exitSignal h st =
     st\<lparr>reloadTimer := map_option (\<lambda>t. t\<lparr>deadline := None, chanC := False\<rparr>) (reloadTimer st),
        trace := trace st @ [EWatcherClose]\<rparr>
   \<and> BrowserReload demoWatch \<noteq> None
   \<and> trace (exitSignal demoWatch (demoState (Some \<lparr>deadline = None, chanC = True\<rparr>)))
       = [EWatcherClose]
   \<and> reloadCount (world (exitSignal demoWatch
         (demoState (Some \<lparr>deadline = None, chanC = True\<rparr>)))) = 0"
proof (intro conjI)
  show "exitSignal h st =
     st\<lparr>reloadTimer := map_option (\<lambda>t. t\<lparr>deadline := None, chanC := False\<rparr>) (reloadTimer st),
        trace := trace st @ [EWatcherClose]\<rparr>"
    by (auto simp: exitSignal_def stopReload_def emit_def Stop_def tryRecv_def
          split: option.splits)
  show "BrowserReload demoWatch \<noteq> None"
    by (simp add: demoWatch_def)
  show "trace (exitSignal demoWatch (demoState (Some \<lparr>deadline = None, chanC = True\<rparr>)))
       = [EWatcherClose]"
    by (simp add: exitSignal_def stopReload_def emit_def Stop_def tryRecv_def demoState_def)
  show "reloadCount (world (exitSignal demoWatch
         (demoState (Some \<lparr>deadline = None, chanC = True\<rparr>)))) = 0"
    by (simp add: exitSignal_def stopReload_def emit_def Stop_def tryRecv_def demoState_def
          demoWorld0_def)
qed

end
